theory Spec2Isabelle
  imports Main "HOL-Library.Word"
begin

section \<open>JavaScript strings and source positions\<close>

text \<open>
  A JavaScript string is a sequence of UTF-16 code units. The functions below only ever
  compare code units of the Basic Multilingual Plane (line breaks, white space, the hyphen),
  so a string is modelled as a list of 16-bit words. \<open>str\<close> embeds an ASCII literal.
\<close>

type_synonym js_string = "16 word list"

definition str :: "string \<Rightarrow> js_string" where
  "str s = map of_char s"

abbreviation LF :: "16 word" where "LF \<equiv> 0x0A"
abbreviation CR :: "16 word" where "CR \<equiv> 0x0D"
abbreviation LS :: "16 word" where "LS \<equiv> 0x2028"
abbreviation PS :: "16 word" where "PS \<equiv> 0x2029"

text \<open>ESLint's \<open>AST.Range\<close> is a pair of offsets \<open>[start, end]\<close>.\<close>

type_synonym Range = "int \<times> int"

record Position =
  line :: int
  column :: int

record SourceLocation =
  loc_start :: Position
  loc_end :: Position

section \<open>utils/node.js\<close>

subsection \<open>isRangesOverlap\<close>

text \<open>\<^verbatim>\<open>return rangeA[0] < rangeB[1] && rangeB[0] < rangeA[1];\<close>\<close>

definition isRangesOverlap :: "Range \<Rightarrow> Range \<Rightarrow> bool" where
  "isRangesOverlap rangeA rangeB \<longleftrightarrow> fst rangeA < snd rangeB \<and> fst rangeB < snd rangeA"

subsection \<open>String primitives of the language\<close>

text \<open>
  White space as \<open>String.prototype.trim\<close> and the regular-expression class \<open>\s\<close> see it:
  the WhiteSpace and LineTerminator code points of ECMAScript.
\<close>

definition isWhiteSpace :: "16 word \<Rightarrow> bool" where
  "isWhiteSpace c \<longleftrightarrow>
     c \<in> {0x09, 0x0A, 0x0B, 0x0C, 0x0D, 0x20, 0xA0, 0x1680, 0x2000, 0x2001, 0x2002, 0x2003,
          0x2004, 0x2005, 0x2006, 0x2007, 0x2008, 0x2009, 0x200A, 0x2028, 0x2029, 0x202F,
          0x205F, 0x3000, 0xFEFF}"

definition trim :: "js_string \<Rightarrow> js_string" where
  "trim s = rev (dropWhile isWhiteSpace (rev (dropWhile isWhiteSpace s)))"

text \<open>
  \<open>s.split(sep)\<close> for a separator of one code unit: the pieces between the occurrences of
  the separator, in order; the empty string gives one empty piece.
\<close>

fun split :: "16 word \<Rightarrow> js_string \<Rightarrow> js_string list" where
  "split sep [] = [[]]"
| "split sep (c # cs) =
     (if c = sep then [] # split sep cs
      else (case split sep cs of [] \<Rightarrow> [[c]] | piece # pieces \<Rightarrow> (c # piece) # pieces))"

text \<open>\<open>pieces.join(sep)\<close>, used to state that splitting loses nothing.\<close>

fun join :: "16 word \<Rightarrow> js_string list \<Rightarrow> js_string" where
  "join sep [] = []"
| "join sep [piece] = piece"
| "join sep (piece # pieces) = piece @ sep # join sep pieces"

subsection \<open>splitToLineNodes\<close>

record Template =
  isTemplate :: bool
  template_range :: Range

text \<open>The fields of a \<open>Text\<close> or \<open>CommentContent\<close> node that \<open>splitToLineNodes\<close> reads.\<close>

record TextContent =
  text_value :: js_string
  text_range :: Range
  text_loc :: SourceLocation
  templates :: "Template list option"

record Line =
  line_type :: js_string
  line_value :: js_string
  line_range :: Range
  line_loc :: SourceLocation
  skipIndentCheck :: bool

definition shouldSkipIndentCheck :: "Template list \<Rightarrow> Range \<Rightarrow> bool" where
  "shouldSkipIndentCheck ts rng =
     list_ex (\<lambda>template. isTemplate template \<and> isRangesOverlap (template_range template) rng) ts"

text \<open>
  The body of the \<open>forEach\<close> callback, with the variables it mutates (\<open>start\<close>, \<open>line\<close>,
  \<open>lineNodes\<close>) as explicit state.
\<close>

fun forEach_line ::
  "Template list \<Rightarrow> int \<Rightarrow> js_string list \<Rightarrow> nat \<Rightarrow> int \<times> int \<times> Line list \<Rightarrow> int \<times> int \<times> Line list"
where
  "forEach_line ts startCol [] index st = st"
| "forEach_line ts startCol (v # rest) index (start, ln, lineNodes) =
     (let columnStart = (if index = 0 then startCol else 0);
          rng = (start, start + int (length v));
          loc = \<lparr> loc_start = \<lparr> line = ln, column = columnStart \<rparr>,
                  loc_end = \<lparr> line = ln, column = columnStart + int (length v) \<rparr> \<rparr>;
          lineNode = \<lparr> line_type = str ''Line'', line_value = v, line_range = rng,
                       line_loc = loc, skipIndentCheck = shouldSkipIndentCheck ts rng \<rparr>
      in forEach_line ts startCol rest (Suc index)
           (start + int (length v) + 1, ln + 1, lineNodes @ [lineNode]))"

definition splitToLineNodes :: "TextContent \<Rightarrow> Line list" where
  "splitToLineNodes node =
     (let start = fst (text_range node);
          ln = line (loc_start (text_loc node));
          startCol = column (loc_start (text_loc node));
          ts = (case templates node of None \<Rightarrow> [] | Some t \<Rightarrow> t)
      in snd (snd (forEach_line ts startCol (split LF (text_value node)) 0 (start, ln, []))))"

subsection \<open>codeToLines\<close>

text \<open>
  \<^verbatim>\<open>source.split(/\r\n|[\r\n\u2028\u2029]/gu)\<close>: the scan goes left to right and at each
  position tries the alternatives in order, so a carriage return followed by a line feed is
  one separator, and any other carriage return, line feed, U+2028 or U+2029 is a separator
  of its own.
\<close>

fun codeToLines :: "js_string \<Rightarrow> js_string list" where
  "codeToLines [] = [[]]"
| "codeToLines [c] = (if c \<in> {CR, LF, LS, PS} then [[], []] else [[c]])"
| "codeToLines (c # d # cs) =
     (if c = CR \<and> d = LF then [] # codeToLines cs
      else if c \<in> {CR, LF, LS, PS} then [] # codeToLines (d # cs)
      else (case codeToLines (d # cs) of [] \<Rightarrow> [[c]] | l # ls \<Rightarrow> (c # l) # ls))"

text \<open>
  The splitter the specification describes, for comparison: line breaks are CRLF, LF and the
  two Unicode separators only.
\<close>

fun codeToLines_spec :: "js_string \<Rightarrow> js_string list" where
  "codeToLines_spec [] = [[]]"
| "codeToLines_spec [c] = (if c \<in> {LF, LS, PS} then [[], []] else [[c]])"
| "codeToLines_spec (c # d # cs) =
     (if c = CR \<and> d = LF then [] # codeToLines_spec cs
      else if c \<in> {LF, LS, PS} then [] # codeToLines_spec (d # cs)
      else (case codeToLines_spec (d # cs) of [] \<Rightarrow> [[c]] | l # ls \<Rightarrow> (c # l) # ls))"

section \<open>The syntax tree\<close>

text \<open>
  The parser's tree, as far as the rules read it. \<open>openEnd\<close> and \<open>close\<close> are nodes with a
  value, a range and a location; \<open>close\<close> is absent when no closing tag was written. A
  \<open>Comment\<close> holds its \<open>CommentContent\<close> in \<open>value\<close>. \<open>Other\<close> stands for the node types that
  carry no field of interest (\<open>Doctype\<close>, \<open>ScriptTag\<close>, \<open>StyleTag\<close>), with the type's name.
\<close>

record Token =
  token_value :: js_string
  token_range :: Range
  token_loc :: SourceLocation

datatype node =
    Tag (name: js_string) (children: "node list") (selfClosing: bool) (openEnd: Token)
        (close: "Token option") (tag_range: Range) (tag_loc: SourceLocation)
  | Text (text_content: TextContent)
  | Comment (comment_content: TextContent) (comment_range: Range) (comment_loc: SourceLocation)
  | Other (other_type: js_string) (other_range: Range) (other_loc: SourceLocation)

fun isTag :: "node \<Rightarrow> bool" where
  "isTag (Tag _ _ _ _ _ _ _) = True"
| "isTag _ = False"

fun isText :: "node \<Rightarrow> bool" where
  "isText (Text _) = True"
| "isText _ = False"

fun isComment :: "node \<Rightarrow> bool" where
  "isComment (Comment _ _ _) = True"
| "isComment _ = False"

fun node_type :: "node \<Rightarrow> js_string" where
  "node_type (Tag _ _ _ _ _ _ _) = str ''Tag''"
| "node_type (Text _) = str ''Text''"
| "node_type (Comment _ _ _) = str ''Comment''"
| "node_type (Other t _ _) = t"

fun loc :: "node \<Rightarrow> SourceLocation" where
  "loc (Tag _ _ _ _ _ _ l) = l"
| "loc (Text t) = text_loc t"
| "loc (Comment _ _ l) = l"
| "loc (Other _ _ l) = l"

section \<open>Diagnostics and fixes\<close>

text \<open>
  What \<open>context.report\<close> receives. The anchor and the targets of the fixer's operations are
  nodes or tokens of the tree. \<open>fixer.remove\<close> is called on the property \<open>node.close\<close>, which
  may be undefined: its argument is an option, \<open>None\<close> for undefined. \<open>report_fix\<close> is what the
  \<open>fix\<close> callback returns: \<open>None\<close> when it returns null or the report has no \<open>fix\<close>, a list of
  edits otherwise (a single edit is a list of one).
\<close>

datatype nodeOrToken = ANode node | AToken Token

datatype edit =
    ReplaceText nodeOrToken js_string
  | Remove "nodeOrToken option"
  | InsertTextAfter nodeOrToken js_string
  | InsertTextBefore nodeOrToken js_string

record 'm Report =
  report_node :: nodeOrToken
  report_messageId :: 'm
  report_tag :: js_string
  report_fix :: "edit list option"

text \<open>
  An edit names the text it changes only when its target is present: the fixer reads the
  target's range.
\<close>

fun edit_wellformed :: "edit \<Rightarrow> bool" where
  "edit_wellformed (Remove None) = False"
| "edit_wellformed _ = True"

datatype js_error = SyntaxError | TypeError

section \<open>require-closing-tags.js\<close>

datatype closing_messageId = MISSING | MISSING_SELF | UNEXPECTED

datatype selfClosingOption = Always | Never

record ClosingOptions =
  opt_selfClosing :: "selfClosingOption option"
  opt_allowSelfClosingCustom :: "bool option"
  opt_customPatterns :: "js_string list option"

text \<open>
  The variables \<open>create\<close> closes over. \<open>VOID_ELEMENTS\<close> comes from the constants module, which is
  not among the sources, and is a parameter here. A compiled pattern is the predicate
  \<open>\<lambda>name. name.match(pattern) \<noteq> null\<close>; the regular-expression compiler \<open>RegExp\<close> is a
  parameter too, \<open>None\<close> where \<open>new RegExp\<close> throws.
\<close>

record ClosingRule =
  VOID_ELEMENTS :: "js_string list"
  preferSelfClose :: bool
  allowSelfClosingCustom :: bool
  customPatterns :: "(js_string \<Rightarrow> bool) list"

definition create_closing ::
  "js_string list \<Rightarrow> (js_string \<Rightarrow> (js_string \<Rightarrow> bool) option) \<Rightarrow> ClosingOptions list
   \<Rightarrow> js_error + ClosingRule"
where
  "create_closing void RegExp options =
     (let prefer = (case options of [] \<Rightarrow> False | opt # _ \<Rightarrow> opt_selfClosing opt = Some Always);
          allow = (case options of [] \<Rightarrow> False
                   | opt # _ \<Rightarrow> opt_allowSelfClosingCustom opt = Some True);
          customPatternsOption =
            (case options of [] \<Rightarrow> [str ''-'']
             | opt # _ \<Rightarrow> (case opt_customPatterns opt of None \<Rightarrow> [str ''-''] | Some ps \<Rightarrow> ps))
      in case those (map RegExp customPatternsOption) of
           None \<Rightarrow> Inl SyntaxError
         | Some ps \<Rightarrow> Inr \<lparr> VOID_ELEMENTS = void, preferSelfClose = prefer,
                            allowSelfClosingCustom = allow, customPatterns = ps \<rparr>)"

definition checkClosingTag :: "node \<Rightarrow> closing_messageId Report list" where
  "checkClosingTag node =
     (if close node = None
      then [\<lparr> report_node = ANode node, report_messageId = MISSING, report_tag = name node,
              report_fix = None \<rparr>]
      else [])"

definition checkVoidElement :: "node \<Rightarrow> bool \<Rightarrow> bool \<Rightarrow> closing_messageId Report list" where
  "checkVoidElement node shouldSelfClose fixable =
     (let hasSelfClose = (token_value (openEnd node) = str ''/>'') in
        (if shouldSelfClose \<and> \<not> hasSelfClose
         then [\<lparr> report_node = AToken (openEnd node), report_messageId = MISSING_SELF,
                 report_tag = name node,
                 report_fix = (if \<not> fixable then None
                               else Some [ReplaceText (AToken (openEnd node)) (str '' />''),
                                          Remove (map_option AToken (close node))]) \<rparr>]
         else [])
        @ (if \<not> shouldSelfClose \<and> hasSelfClose
           then [\<lparr> report_node = AToken (openEnd node), report_messageId = UNEXPECTED,
                   report_tag = name node,
                   report_fix = (if \<not> fixable then None
                                 else Some [ReplaceText (AToken (openEnd node)) (str ''>'')]) \<rparr>]
           else []))"

text \<open>
  The \<open>Tag\<close> and \<open>Tag:exit\<close> handlers. The array \<open>foreignContext\<close> is the state: \<open>push\<close> appends,
  the top is the last element, \<open>pop\<close> drops it. The handler returns the diagnostics it
  reports and the new array.
\<close>

definition Tag_enter ::
  "ClosingRule \<Rightarrow> node \<Rightarrow> js_string list \<Rightarrow> closing_messageId Report list \<times> js_string list"
where
  "Tag_enter rule node foreignContext =
     (let isVoidElement = (name node \<in> set (VOID_ELEMENTS rule));
          isCustomElement = list_ex (\<lambda>i. i (name node)) (customPatterns rule);
          canSelfClose = (isVoidElement \<or> length foreignContext > 0
                          \<or> (isCustomElement \<and> allowSelfClosingCustom rule
                              \<and> length (children node) = 0));
          reports =
            (if selfClosing node \<or> canSelfClose
             then checkVoidElement node (preferSelfClose rule \<and> canSelfClose) canSelfClose
             else if token_value (openEnd node) \<noteq> str ''/>'' then checkClosingTag node
             else [])
      in (reports,
          if name node \<in> {str ''svg'', str ''math''} then foreignContext @ [name node]
          else foreignContext))"

definition Tag_exit :: "node \<Rightarrow> js_string list \<Rightarrow> js_string list" where
  "Tag_exit node foreignContext =
     (if foreignContext \<noteq> [] \<and> name node = last foreignContext then butlast foreignContext
      else foreignContext)"

subsection \<open>The second version of the rule in the source file\<close>

text \<open>
  The source file holds a second version of the rule, without \<open>customPatterns\<close> and without
  the foreign context; its fix for a missing self-closing slash only rewrites the open-tag
  end.
\<close>

definition checkVoidElement_v2 :: "node \<Rightarrow> bool \<Rightarrow> bool \<Rightarrow> closing_messageId Report list" where
  "checkVoidElement_v2 node shouldSelfClose fixable =
     (let hasSelfClose = (token_value (openEnd node) = str ''/>'') in
        (if shouldSelfClose \<and> \<not> hasSelfClose
         then [\<lparr> report_node = AToken (openEnd node), report_messageId = MISSING_SELF,
                 report_tag = name node,
                 report_fix = (if \<not> fixable then None
                               else Some [ReplaceText (AToken (openEnd node)) (str '' />'')]) \<rparr>]
         else [])
        @ (if \<not> shouldSelfClose \<and> hasSelfClose
           then [\<lparr> report_node = AToken (openEnd node), report_messageId = UNEXPECTED,
                   report_tag = name node,
                   report_fix = (if \<not> fixable then None
                                 else Some [ReplaceText (AToken (openEnd node)) (str ''>'')]) \<rparr>]
           else []))"

definition Tag_enter_v2 :: "ClosingRule \<Rightarrow> node \<Rightarrow> closing_messageId Report list" where
  "Tag_enter_v2 rule node =
     (let isVoidElement = (name node \<in> set (VOID_ELEMENTS rule));
          canSelfClose = isVoidElement
      in if selfClosing node \<and> allowSelfClosingCustom rule \<and> 0x2D \<in> set (name node)
         then checkVoidElement_v2 node True False
         else if selfClosing node \<or> isVoidElement
         then checkVoidElement_v2 node (preferSelfClose rule \<and> canSelfClose) canSelfClose
         else if token_value (openEnd node) \<noteq> str ''/>'' then checkClosingTag node
         else [])"

subsection \<open>The traversal\<close>

text \<open>
  The linter walks the tree depth first, calls \<open>Tag\<close> on entering a tag, before its children,
  and \<open>Tag:exit\<close> after them. Only tags have tags among their descendants. For every tag the
  walk records its ancestors (outermost first), the foreign-context array when \<open>Tag\<close> and
  when \<open>Tag:exit\<close> start, and the diagnostics \<open>Tag\<close> reported.
\<close>

record Visit =
  visit_node :: node
  visit_ancestors :: "node list"
  visit_foreignContext :: "js_string list"
  visit_foreignContext_exit :: "js_string list"
  visit_reports :: "closing_messageId Report list"

fun traverse :: "ClosingRule \<Rightarrow> node list \<Rightarrow> node \<Rightarrow> js_string list \<Rightarrow> Visit list \<times> js_string list"
  and traverse_children ::
    "ClosingRule \<Rightarrow> node list \<Rightarrow> node list \<Rightarrow> js_string list \<Rightarrow> Visit list \<times> js_string list"
where
  "traverse rule ancestors (Tag n ch sc oe cl r l) foreignContext =
     (let node = Tag n ch sc oe cl r l;
          (reports, fc1) = Tag_enter rule node foreignContext;
          (visits, fc2) = traverse_children rule (ancestors @ [node]) ch fc1;
          fc3 = Tag_exit node fc2
      in (\<lparr> visit_node = node, visit_ancestors = ancestors,
            visit_foreignContext = foreignContext, visit_foreignContext_exit = fc2,
            visit_reports = reports \<rparr> # visits, fc3))"
| "traverse rule ancestors (Text _) foreignContext = ([], foreignContext)"
| "traverse rule ancestors (Comment _ _ _) foreignContext = ([], foreignContext)"
| "traverse rule ancestors (Other _ _ _) foreignContext = ([], foreignContext)"
| "traverse_children rule ancestors [] foreignContext = ([], foreignContext)"
| "traverse_children rule ancestors (child # rest) foreignContext =
     (let (visits1, fc1) = traverse rule ancestors child foreignContext;
          (visits2, fc2) = traverse_children rule ancestors rest fc1
      in (visits1 @ visits2, fc2))"

text \<open>One run of the rule over a document: \<open>create\<close> starts with an empty array.\<close>

definition run_closing :: "ClosingRule \<Rightarrow> node list \<Rightarrow> Visit list \<times> js_string list" where
  "run_closing rule document = traverse_children rule [] document []"

section \<open>element-newline.js\<close>

datatype newline_messageId =
    EXPECT_NEW_LINE_AFTER
  | EXPECT_NEW_LINE_AFTER_OPEN
  | EXPECT_NEW_LINE_BEFORE
  | EXPECT_NEW_LINE_BEFORE_CLOSE

text \<open>\<open>PRESETS\<close> has the single own key \<open>$inline\<close>.\<close>

definition PRESETS_inline :: "js_string list" where
  "PRESETS_inline = map str [''a'', ''abbr'', ''b'', ''bdi'', ''bdo'', ''br'', ''cite'', ''code'',
     ''data'', ''dfn'', ''em'', ''i'', ''kbd'', ''mark'', ''q'', ''rp'', ''rt'', ''ruby'', ''s'',
     ''samp'', ''small'', ''span'', ''strong'', ''sub'', ''sup'', ''time'', ''u'', ''var'',
     ''wbr'']"

text \<open>
  \<open>option in PRESETS\<close> is also true of the property names \<open>PRESETS\<close> inherits from
  \<open>Object.prototype\<close>; for these \<open>PRESETS[option]\<close> is not iterable and the spread throws a
  TypeError.
\<close>

definition Object_prototype_keys :: "js_string list" where
  "Object_prototype_keys = map str [''constructor'', ''__defineGetter__'', ''__defineSetter__'',
     ''hasOwnProperty'', ''__lookupGetter__'', ''__lookupSetter__'', ''isPrototypeOf'',
     ''propertyIsEnumerable'', ''toString'', ''valueOf'', ''__proto__'', ''toLocaleString'']"

fun optionsOrPresets :: "js_string list \<Rightarrow> js_string list \<Rightarrow> js_error + js_string list" where
  "optionsOrPresets [] result = Inr result"
| "optionsOrPresets (option # options) result =
     (if option = str ''$inline'' then optionsOrPresets options (result @ PRESETS_inline)
      else if option \<in> set Object_prototype_keys then Inl TypeError
      else optionsOrPresets options (result @ [option]))"

record NewlineOptions =
  opt_inline :: "js_string list option"
  opt_skip :: "js_string list option"

record NewlineRule =
  skipTags :: "js_string list"
  inlineTags :: "js_string list"

definition create_newline :: "NewlineOptions list \<Rightarrow> js_error + NewlineRule" where
  "create_newline options =
     (let skip = (case options of [] \<Rightarrow> []
                  | opt # _ \<Rightarrow> (case opt_skip opt of None \<Rightarrow> [] | Some s \<Rightarrow> s));
          inl = (case options of [] \<Rightarrow> []
                 | opt # _ \<Rightarrow> (case opt_inline opt of None \<Rightarrow> [] | Some i \<Rightarrow> i))
      in case optionsOrPresets inl [] of
           Inl e \<Rightarrow> Inl e
         | Inr tags \<Rightarrow> Inr \<lparr> skipTags = skip, inlineTags = tags \<rparr>)"

text \<open>
  \<open>toLowerCase\<close>. On a string of ASCII code units the language maps the letters A to Z and
  nothing else. Its mapping of the strings that hold other code units (the Unicode case
  mapping) is not written out: it is the parameter \<open>unicodeLower\<close>, which the functions of
  the rule that lowercase a name pass on.
\<close>

definition toLowerCase :: "(js_string \<Rightarrow> js_string) \<Rightarrow> js_string \<Rightarrow> js_string" where
  "toLowerCase unicodeLower s =
     (if list_all (\<lambda>c. c < 0x80) s
      then map (\<lambda>c. if 0x41 \<le> c \<and> c \<le> 0x5A then c + 0x20 else c) s
      else unicodeLower s)"

text \<open>The three regular expressions of the rule, \<open>test\<close>ed against a string.\<close>

text \<open>\<^verbatim>\<open>/[\n\r]+/\<close>\<close>

definition test_some_newline :: "js_string \<Rightarrow> bool" where
  "test_some_newline s = list_ex (\<lambda>c. c = LF \<or> c = CR) s"

text \<open>\<^verbatim>\<open>/^(\n|\r\n)/\<close>\<close>

fun test_newline_start :: "js_string \<Rightarrow> bool" where
  "test_newline_start [] = False"
| "test_newline_start [c] = (c = LF)"
| "test_newline_start (c # d # _) = (c = LF \<or> (c = CR \<and> d = LF))"

text \<open>\<^verbatim>\<open>/(\n|\r\n)\s*$/\<close>: some line feed, or carriage return and line feed, with only white space after it.\<close>

fun test_newline_end :: "js_string \<Rightarrow> bool" where
  "test_newline_end [] = False"
| "test_newline_end (c # cs) =
     ((c = LF \<and> list_all isWhiteSpace cs)
      \<or> (c = CR \<and> (case cs of [] \<Rightarrow> False | d # ds \<Rightarrow> d = LF \<and> list_all isWhiteSpace ds))
      \<or> test_newline_end cs)"

definition isEmptyText :: "node \<Rightarrow> bool" where
  "isEmptyText node \<longleftrightarrow> isText node \<and> length (trim (text_value (text_content node))) = 0"

definition isNotNewlineEnd :: "node \<Rightarrow> bool" where
  "isNotNewlineEnd node \<longleftrightarrow>
     \<not> isText node \<or> test_newline_end (text_value (text_content node)) = False"

definition isNotNewlineStart :: "node \<Rightarrow> bool" where
  "isNotNewlineStart node \<longleftrightarrow>
     \<not> isText node \<or> test_newline_start (text_value (text_content node)) = False"

definition label :: "node \<Rightarrow> bool \<Rightarrow> js_string" where
  "label node isClose =
     (if isTag node
      then (if isClose then str ''</'' @ name node @ str ''>'' else str ''<'' @ name node @ str ''>'')
      else str ''<'' @ node_type node @ str ''>'')"

definition shouldBeNewline ::
  "(js_string \<Rightarrow> js_string) \<Rightarrow> NewlineRule \<Rightarrow> node \<Rightarrow> bool"
where
  "shouldBeNewline unicodeLower rule node =
     (if isComment node then test_some_newline (trim (text_value (comment_content node)))
      else if isTag node
      then (toLowerCase unicodeLower (name node) \<in> set (inlineTags rule)) = False
      else if isText node then test_some_newline (trim (text_value (text_content node)))
      else True)"

record NodeMeta =
  childFirst :: "node option"
  childLast :: "node option"
  meta_shouldBeNewline :: bool

text \<open>
  The two blocks of reports in the body of the second loop of \<open>checkSiblings\<close>. The first
  (for a tag that wants a newline and whose children want one) looks at the open-tag end
  and the closing tag against the first and last child with content; the second looks at
  the node and the next node with content.
\<close>

definition check_open_close :: "node \<Rightarrow> NodeMeta \<Rightarrow> newline_messageId Report list" where
  "check_open_close node nodeMeta =
     (case (childFirst nodeMeta, childLast nodeMeta) of
        (Some cfirst, Some clast) \<Rightarrow>
          (if line (loc_end (token_loc (openEnd node))) = line (loc_start (loc cfirst))
              \<and> isNotNewlineStart cfirst
           then [\<lparr> report_node = ANode node, report_messageId = EXPECT_NEW_LINE_AFTER_OPEN,
                   report_tag = label node False,
                   report_fix = Some [InsertTextAfter (AToken (openEnd node)) [LF]] \<rparr>]
           else [])
          @ (case close node of
               None \<Rightarrow> []
             | Some cl \<Rightarrow>
                 if line (loc_end (loc clast)) = line (loc_start (token_loc cl))
                    \<and> isNotNewlineEnd clast
                 then [\<lparr> report_node = ANode node,
                         report_messageId = EXPECT_NEW_LINE_BEFORE_CLOSE,
                         report_tag = label node True,
                         report_fix = Some [InsertTextBefore (AToken cl) [LF]] \<rparr>]
                 else [])
      | _ \<Rightarrow> [])"

definition check_next ::
  "(js_string \<Rightarrow> js_string) \<Rightarrow> NewlineRule \<Rightarrow> node \<Rightarrow> node option
   \<Rightarrow> newline_messageId Report list"
where
  "check_next unicodeLower rule node next =
     (case next of
        None \<Rightarrow> []
      | Some nodeNext \<Rightarrow>
          if line (loc_end (loc node)) = line (loc_start (loc nodeNext))
          then (if shouldBeNewline unicodeLower rule node
                then (if isNotNewlineStart nodeNext
                      then [\<lparr> report_node = ANode nodeNext,
                              report_messageId = EXPECT_NEW_LINE_AFTER,
                              report_tag = label node False,
                              report_fix = Some [InsertTextAfter (ANode node) [LF]] \<rparr>]
                      else [])
                else if shouldBeNewline unicodeLower rule nodeNext
                then (if isNotNewlineEnd node
                      then [\<lparr> report_node = ANode nodeNext,
                              report_messageId = EXPECT_NEW_LINE_BEFORE,
                              report_tag = label nodeNext False,
                              report_fix = Some [InsertTextBefore (ANode nodeNext) [LF]] \<rparr>]
                      else [])
                else [])
          else [])"

text \<open>
  \<open>checkSiblings\<close>: the first loop keeps the nodes with content, the second
  (\<open>checkSiblings_loop\<close>) goes through them with \<open>meta\<close> as its state and returns the
  diagnostics in the order they are reported.
\<close>

function checkSiblings ::
    "(js_string \<Rightarrow> js_string) \<Rightarrow> NewlineRule \<Rightarrow> node list
     \<Rightarrow> NodeMeta \<times> newline_messageId Report list"
  and checkSiblings_loop ::
    "(js_string \<Rightarrow> js_string) \<Rightarrow> NewlineRule \<Rightarrow> node list \<Rightarrow> NodeMeta
     \<Rightarrow> NodeMeta \<times> newline_messageId Report list"
where
  "checkSiblings unicodeLower rule siblings =
     checkSiblings_loop unicodeLower rule (filter (\<lambda>node. isEmptyText node = False) siblings)
       \<lparr> childFirst = None, childLast = None, meta_shouldBeNewline = False \<rparr>"
| "checkSiblings_loop unicodeLower rule [] meta = (meta, [])"
| "checkSiblings_loop unicodeLower rule (node # rest) meta =
     (let nodeNext = (case rest of [] \<Rightarrow> None | n # _ \<Rightarrow> Some n);
          meta1 = (if childFirst meta = None then meta\<lparr> childFirst := Some node \<rparr> else meta);
          meta2 = meta1\<lparr> childLast := Some node \<rparr>;
          nodeShouldBeNewline = shouldBeNewline unicodeLower rule node;
          (meta3, reports1) =
            (if isTag node \<and> (name node \<in> set (skipTags rule)) = False
             then (let (nodeMeta, childReports) = checkSiblings unicodeLower rule (children node);
                       nodeChildShouldBeNewline = meta_shouldBeNewline nodeMeta
                   in ((if nodeShouldBeNewline \<or> nodeChildShouldBeNewline
                        then meta2\<lparr> meta_shouldBeNewline := True \<rparr> else meta2),
                       childReports
                       @ (if nodeShouldBeNewline \<and> nodeChildShouldBeNewline
                          then check_open_close node nodeMeta else [])))
             else (meta2, []));
          reports2 = check_next unicodeLower rule node nodeNext;
          (meta4, reports3) = checkSiblings_loop unicodeLower rule rest meta3
      in (meta4, reports1 @ reports2 @ reports3))"
  by pat_completeness auto
termination
proof (relation "measure (\<lambda>x. case x of
    Inl (u, rule, siblings) \<Rightarrow> 2 * size_list size siblings + 1
  | Inr (u, rule, nodes, meta) \<Rightarrow> 2 * size_list size nodes)")
  have le: "size_list size (filter P xs) \<le> size_list size xs" for P and xs :: "node list"
    by (induction xs) auto
  show "wf (measure (\<lambda>x. case x of
      Inl (u, rule, siblings) \<Rightarrow> 2 * size_list size siblings + 1
    | Inr (u, rule, nodes, meta) \<Rightarrow> 2 * size_list size nodes))"
    by simp
  show "(Inr (u, rule, filter (\<lambda>node. isEmptyText node = False) siblings,
           \<lparr> childFirst = None, childLast = None, meta_shouldBeNewline = False \<rparr>),
         Inl (u, rule, siblings))
        \<in> measure (\<lambda>x. case x of
            Inl (u, rule, siblings) \<Rightarrow> 2 * size_list size siblings + 1
          | Inr (u, rule, nodes, meta) \<Rightarrow> 2 * size_list size nodes)"
    for u :: "js_string \<Rightarrow> js_string" and rule :: NewlineRule and siblings
    using le[of "\<lambda>node. isEmptyText node = False" siblings] by simp
  show "(Inl (u, rule, children node), Inr (u, rule, node # rest, meta))
        \<in> measure (\<lambda>x. case x of
            Inl (u, rule, siblings) \<Rightarrow> 2 * size_list size siblings + 1
          | Inr (u, rule, nodes, meta) \<Rightarrow> 2 * size_list size nodes)"
    if "isTag node \<and> (name node \<in> set (skipTags rule)) = False"
    for u :: "js_string \<Rightarrow> js_string" and rule :: NewlineRule and node rest
      and meta :: NodeMeta
    using that by (cases node) auto
  show "(Inr (u, rule, rest, meta3), Inr (u, rule, node # rest, meta))
        \<in> measure (\<lambda>x. case x of
            Inl (u, rule, siblings) \<Rightarrow> 2 * size_list size siblings + 1
          | Inr (u, rule, nodes, meta) \<Rightarrow> 2 * size_list size nodes)"
    for u :: "js_string \<Rightarrow> js_string" and rule :: NewlineRule and rest :: "node list"
      and meta3 :: NodeMeta and node and meta :: NodeMeta
    by simp
qed

section \<open>Auxiliary notions used to state the properties\<close>

text \<open>
  The ranges that consecutive pieces of a split occupy when the first piece starts at
  \<open>start\<close> and one position is skipped after every piece.
\<close>

fun line_ranges :: "int \<Rightarrow> js_string list \<Rightarrow> Range list" where
  "line_ranges start [] = []"
| "line_ranges start (v # vs) = (start, start + int (length v)) # line_ranges (start + int (length v) + 1) vs"

text \<open>A text node holding \<open>a\<close>, a line feed and \<open>b\<close>, at offsets 0 to 3.\<close>

definition text_two_lines :: TextContent where
  "text_two_lines = \<lparr> text_value = str ''a'' @ [LF] @ str ''b'', text_range = (0, 3),
     text_loc = \<lparr> loc_start = \<lparr> line = 1, column = 0 \<rparr>, loc_end = \<lparr> line = 2, column = 1 \<rparr> \<rparr>,
     templates = None \<rparr>"

text \<open>The names that open a foreign context, and those among the names of a list of tags.\<close>

definition foreign_names :: "node list \<Rightarrow> js_string list" where
  "foreign_names tags = filter (\<lambda>n. n \<in> {str ''svg'', str ''math''}) (map name tags)"

text \<open>
  Modelled from the spec: the constants module with \<open>VOID_ELEMENTS\<close> is not among the sources;
  the spec names \<open>img\<close>, \<open>br\<close> and \<open>input\<close> as members. The concrete examples use HTML's void
  elements; the general theorems hold for every list.
\<close>

definition VOID_ELEMENTS_html :: "js_string list" where
  "VOID_ELEMENTS_html = map str [''area'', ''base'', ''br'', ''col'', ''embed'', ''hr'', ''img'',
     ''input'', ''link'', ''meta'', ''param'', ''source'', ''track'', ''wbr'']"

text \<open>
  \<open>new RegExp(i)\<close> for a pattern \<open>i\<close> without metacharacters: it compiles, and it matches the
  names in which \<open>i\<close> occurs.
\<close>

fun occurs_in :: "js_string \<Rightarrow> js_string \<Rightarrow> bool" where
  "occurs_in i [] = (i = [])"
| "occurs_in i (c # cs) = (take (length i) (c # cs) = i \<or> occurs_in i cs)"

definition RegExp_literal :: "js_string \<Rightarrow> (js_string \<Rightarrow> bool) option" where
  "RegExp_literal i = Some (occurs_in i)"

text \<open>Tokens and locations on the first line of a source, where the column is the offset.\<close>

definition line1 :: "int \<Rightarrow> int \<Rightarrow> SourceLocation" where
  "line1 s e = \<lparr> loc_start = \<lparr> line = 1, column = s \<rparr>, loc_end = \<lparr> line = 1, column = e \<rparr> \<rparr>"

definition tok :: "string \<Rightarrow> int \<Rightarrow> int \<Rightarrow> Token" where
  "tok v s e = \<lparr> token_value = str v, token_range = (s, e), token_loc = line1 s e \<rparr>"

text \<open>
  The sources \<open><img>\<close>, \<open><img />\<close>, \<open><foo>\<close>, \<open><my-el/>\<close>, \<open><my-el>\<close>, \<open><div></div>\<close> and
  \<open><svg><g></g></svg>\<close>.
\<close>

definition foo_open :: node where
  "foo_open = Tag (str ''foo'') [] False (tok ''>'' 4 5) None (0, 5) (line1 0 5)"

definition img_open :: node where
  "img_open = Tag (str ''img'') [] False (tok ''>'' 4 5) None (0, 5) (line1 0 5)"

definition img_slash :: node where
  "img_slash = Tag (str ''img'') [] True (tok ''/>'' 5 7) None (0, 7) (line1 0 7)"

definition my_el :: node where
  "my_el = Tag (str ''my-el'') [] True (tok ''/>'' 6 8) None (0, 8) (line1 0 8)"

definition my_el_open :: node where
  "my_el_open = Tag (str ''my-el'') [] False (tok ''>'' 6 7) None (0, 7) (line1 0 7)"

definition div_closed :: node where
  "div_closed = Tag (str ''div'') [] False (tok ''>'' 4 5) (Some (tok ''</div>'' 5 11)) (0, 11)
     (line1 0 11)"

definition g_in_svg :: node where
  "g_in_svg = Tag (str ''g'') [] False (tok ''>'' 7 8) (Some (tok ''</g>'' 8 12)) (5, 12)
     (line1 5 12)"

definition svg_g :: node where
  "svg_g = Tag (str ''svg'') [g_in_svg] False (tok ''>'' 4 5) (Some (tok ''</svg>'' 12 18))
     (0, 18) (line1 0 18)"

text \<open>Options, and the configurations \<open>create\<close> builds from them.\<close>

definition options_always :: ClosingOptions where
  "options_always = \<lparr> opt_selfClosing = Some Always, opt_allowSelfClosingCustom = None,
     opt_customPatterns = None \<rparr>"

definition options_never :: ClosingOptions where
  "options_never = \<lparr> opt_selfClosing = Some Never, opt_allowSelfClosingCustom = None,
     opt_customPatterns = None \<rparr>"

definition options_never_custom :: ClosingOptions where
  "options_never_custom = \<lparr> opt_selfClosing = Some Never,
     opt_allowSelfClosingCustom = Some True, opt_customPatterns = None \<rparr>"

definition options_always_custom :: ClosingOptions where
  "options_always_custom = \<lparr> opt_selfClosing = Some Always,
     opt_allowSelfClosingCustom = Some True, opt_customPatterns = None \<rparr>"

definition options_always_custom_div :: ClosingOptions where
  "options_always_custom_div = \<lparr> opt_selfClosing = Some Always,
     opt_allowSelfClosingCustom = Some True, opt_customPatterns = Some [str ''div''] \<rparr>"

definition rule_always :: ClosingRule where
  "rule_always = \<lparr> VOID_ELEMENTS = VOID_ELEMENTS_html, preferSelfClose = True,
     allowSelfClosingCustom = False, customPatterns = [occurs_in (str ''-'')] \<rparr>"

definition rule_never :: ClosingRule where
  "rule_never = \<lparr> VOID_ELEMENTS = VOID_ELEMENTS_html, preferSelfClose = False,
     allowSelfClosingCustom = False, customPatterns = [occurs_in (str ''-'')] \<rparr>"

definition rule_never_custom :: ClosingRule where
  "rule_never_custom = \<lparr> VOID_ELEMENTS = VOID_ELEMENTS_html, preferSelfClose = False,
     allowSelfClosingCustom = True, customPatterns = [occurs_in (str ''-'')] \<rparr>"

definition rule_always_custom :: ClosingRule where
  "rule_always_custom = \<lparr> VOID_ELEMENTS = VOID_ELEMENTS_html, preferSelfClose = True,
     allowSelfClosingCustom = True, customPatterns = [occurs_in (str ''-'')] \<rparr>"

definition rule_always_custom_div :: ClosingRule where
  "rule_always_custom_div = \<lparr> VOID_ELEMENTS = VOID_ELEMENTS_html, preferSelfClose = True,
     allowSelfClosingCustom = True, customPatterns = [occurs_in (str ''div'')] \<rparr>"

text \<open>
  What the walk keeps true of every visit: the array holds the names of the \<open>svg\<close> and \<open>math\<close>
  ancestors when \<open>Tag\<close> starts, those and the tag's own entry when \<open>Tag:exit\<close> starts, and the
  recorded diagnostics are those of \<open>Tag\<close>.
\<close>

definition visit_ok :: "ClosingRule \<Rightarrow> Visit \<Rightarrow> bool" where
  "visit_ok rule v \<longleftrightarrow>
     visit_foreignContext v = foreign_names (visit_ancestors v)
     \<and> visit_foreignContext_exit v = foreign_names (visit_ancestors v @ [visit_node v])
     \<and> visit_reports v = fst (Tag_enter rule (visit_node v) (visit_foreignContext v))"

text \<open>
  The nodes the newline rule reaches in a sibling group: the members of the group, and the
  children of every reached tag whose name is no \<open>skip\<close> entry.
\<close>

fun reached :: "NewlineRule \<Rightarrow> node \<Rightarrow> node list" where
  "reached rule (Tag n ch sc oe cl r l) =
     Tag n ch sc oe cl r l
     # (if n \<in> set (skipTags rule) then [] else concat (map (reached rule) ch))"
| "reached rule (Text t) = [Text t]"
| "reached rule (Comment c r l) = [Comment c r l]"
| "reached rule (Other t r l) = [Other t r l]"

text \<open>
  The names in the examples are ASCII, so the mapping of other strings is never consulted
  there; the identity stands in for it.
\<close>

definition ascii_only :: "js_string \<Rightarrow> js_string" where
  "ascii_only s = s"

text \<open>
  The source \<open><p><b>x</b><div>y</div></p>\<close> on one line, and the rule configured with
  \<open>inline: ["$inline"]\<close>.
\<close>

definition text_at :: "js_string \<Rightarrow> int \<Rightarrow> SourceLocation \<Rightarrow> node" where
  "text_at v s l = Text \<lparr> text_value = v, text_range = (s, s + int (length v)), text_loc = l,
     templates = Some [] \<rparr>"

definition b_x :: node where
  "b_x = Tag (str ''b'') [text_at (str ''x'') 6 (line1 6 7)] False (tok ''>'' 5 6)
     (Some (tok ''</b>'' 7 11)) (3, 11) (line1 3 11)"

definition div_y :: node where
  "div_y = Tag (str ''div'') [text_at (str ''y'') 16 (line1 16 17)] False (tok ''>'' 15 16)
     (Some (tok ''</div>'' 17 23)) (11, 23) (line1 11 23)"

definition p_b_div :: node where
  "p_b_div = Tag (str ''p'') [b_x, div_y] False (tok ''>'' 2 3) (Some (tok ''</p>'' 23 27))
     (0, 27) (line1 0 27)"

definition options_inline :: NewlineOptions where
  "options_inline = \<lparr> opt_inline = Some [str ''$inline''], opt_skip = None \<rparr>"

definition rule_inline :: NewlineRule where
  "rule_inline = \<lparr> skipTags = [], inlineTags = PRESETS_inline \<rparr>"

text \<open>
  The source \<open><div></div>\<close> followed, on the same line, by a text that starts with a line
  feed and goes on with \<open>foo\<close>, a line feed and \<open>bar\<close>.
\<close>

definition text_foo_bar :: node where
  "text_foo_bar = text_at (LF # str ''foo'' @ LF # str ''bar'') 11
     \<lparr> loc_start = \<lparr> line = 1, column = 11 \<rparr>, loc_end = \<lparr> line = 3, column = 3 \<rparr> \<rparr>"

text \<open>The text \<open>foo\<close> right after \<open><div></div>\<close>.\<close>

definition text_foo :: node where
  "text_foo = text_at (str ''foo'') 11 (line1 11 14)"

text \<open>
  The tags \<open><span></span>\<close> and \<open><SPAN></SPAN>\<close>, and the rule configured with
  \<open>inline: ["SPAN"]\<close>.
\<close>

definition SPAN_tag :: node where
  "SPAN_tag = Tag (str ''SPAN'') [] False (tok ''>'' 5 6) (Some (tok ''</SPAN>'' 6 13)) (0, 13)
     (line1 0 13)"

definition span_tag :: node where
  "span_tag = Tag (str ''span'') [] False (tok ''>'' 5 6) (Some (tok ''</span>'' 6 13)) (0, 13)
     (line1 0 13)"

definition options_inline_SPAN :: NewlineOptions where
  "options_inline_SPAN = \<lparr> opt_inline = Some [str ''SPAN''], opt_skip = None \<rparr>"

definition rule_inline_SPAN :: NewlineRule where
  "rule_inline_SPAN = \<lparr> skipTags = [], inlineTags = [str ''SPAN''] \<rparr>"

text \<open>
  The source \<open><body><PRE><b>x</b><div>y</div></PRE></body>\<close> on one line, and the rule
  configured with \<open>skip: ["pre"]\<close>.
\<close>

definition b_in_PRE :: node where
  "b_in_PRE = Tag (str ''b'') [text_at (str ''x'') 14 (line1 14 15)] False (tok ''>'' 13 14)
     (Some (tok ''</b>'' 15 19)) (11, 19) (line1 11 19)"

definition div_in_PRE :: node where
  "div_in_PRE = Tag (str ''div'') [text_at (str ''y'') 24 (line1 24 25)] False (tok ''>'' 23 24)
     (Some (tok ''</div>'' 25 31)) (19, 31) (line1 19 31)"

definition PRE_b_div :: node where
  "PRE_b_div = Tag (str ''PRE'') [b_in_PRE, div_in_PRE] False (tok ''>'' 10 11)
     (Some (tok ''</PRE>'' 31 37)) (6, 37) (line1 6 37)"

definition body_PRE :: node where
  "body_PRE = Tag (str ''body'') [PRE_b_div] False (tok ''>'' 5 6) (Some (tok ''</body>'' 37 44))
     (0, 44) (line1 0 44)"

definition rule_skip_pre :: NewlineRule where
  "rule_skip_pre = \<lparr> skipTags = [str ''pre''], inlineTags = PRESETS_inline \<rparr>"

section \<open>Verified properties\<close>

subsection \<open>Range overlap\<close>

text \<open>
  Claim C7. \<open>isRangesOverlap\<close> is symmetric in its two arguments; it is true exactly when
  \<open>a.start < b.end\<close> and \<open>b.start < a.end\<close>; and two ranges that only share a boundary point
  (the end of one is the start of the other) do not overlap, whichever is passed first.
\<close>

theorem isRangesOverlap_symmetric_strict:
  "isRangesOverlap a b = isRangesOverlap b a
   \<and> (isRangesOverlap a b \<longleftrightarrow> fst a < snd b \<and> fst b < snd a)
   \<and> \<not> isRangesOverlap (s, m) (m, e)
   \<and> \<not> isRangesOverlap (m, e) (s, m)"
  by (auto simp: isRangesOverlap_def)

subsection \<open>Splitting a text node into lines\<close>

lemma split_not_Nil: "split sep s \<noteq> []"
  by (induction s) (auto split: list.splits)

lemma length_split: "length (split sep s) = Suc (count_list s sep)"
  using split_not_Nil[of sep] by (induction s) (auto split: list.splits)

lemma join_Cons_nonempty: "ps \<noteq> [] \<Longrightarrow> join sep (p # ps) = p @ sep # join sep ps"
  by (cases ps) auto

lemma join_split: "join sep (split sep s) = s"
proof (induction s)
  case Nil
  show ?case by simp
next
  case (Cons c cs)
  show ?case
  proof (cases "c = sep")
    case True
    with Cons show ?thesis by (simp add: join_Cons_nonempty split_not_Nil)
  next
    case False
    obtain p ps where sp: "split sep cs = p # ps"
      using split_not_Nil[of sep cs] by (cases "split sep cs") auto
    with Cons False show ?thesis by (cases ps) auto
  qed
qed

lemma split_no_sep: "piece \<in> set (split sep s) \<Longrightarrow> sep \<notin> set piece"
  by (induction s arbitrary: piece) (auto split: if_splits list.splits)

lemma sum_length_split: "sum_list (map length (split sep s)) + count_list s sep = length s"
  using split_not_Nil[of sep] by (induction s) (auto split: list.splits)

lemma forEach_line_values:
  "map line_value (snd (snd (forEach_line ts sc vs idx (start, ln, acc)))) = map line_value acc @ vs"
  by (induction vs arbitrary: idx start ln acc) (auto simp: Let_def)

lemma forEach_line_ranges:
  "map line_range (snd (snd (forEach_line ts sc vs idx (start, ln, acc)))) = map line_range acc @ line_ranges start vs"
  by (induction vs arbitrary: idx start ln acc) (auto simp: Let_def)

lemma length_line_ranges: "length (line_ranges start vs) = length vs"
  by (induction vs arbitrary: start) auto

lemma line_ranges_width: "i < length vs \<Longrightarrow> snd (line_ranges start vs ! i) = fst (line_ranges start vs ! i) + int (length (vs ! i))"
  by (induction vs arbitrary: start i) (auto simp: nth_Cons split: nat.splits)

lemma line_ranges_hd: "vs \<noteq> [] \<Longrightarrow> fst (hd (line_ranges start vs)) = start"
  by (cases vs) auto

lemma line_ranges_next: "Suc i < length vs \<Longrightarrow> fst (line_ranges start vs ! Suc i) = snd (line_ranges start vs ! i) + 1"
proof (induction vs arbitrary: start i)
  case Nil then show ?case by simp
next
  case (Cons v vs)
  show ?case
  proof (cases i)
    case 0
    with Cons.prems show ?thesis by (cases vs) auto
  next
    case (Suc j)
    with Cons show ?thesis by simp
  qed
qed

lemma line_ranges_Nil_iff: "line_ranges start vs = [] \<longleftrightarrow> vs = []"
  by (cases vs) auto

lemma line_ranges_last: "vs \<noteq> [] \<Longrightarrow> snd (last (line_ranges start vs)) = start + int (sum_list (map length vs)) + int (length vs) - 1"
proof (induction vs arbitrary: start)
  case Nil then show ?case by simp
next
  case (Cons v vs)
  show ?case
  proof (cases "vs = []")
    case True
    then show ?thesis by simp
  next
    case False
    from Cons.IH[OF False, of "start + int (length v) + 1"] False
    show ?thesis by (simp add: line_ranges_Nil_iff)
  qed
qed

text \<open>
  Claim C5, as amended. Let \<open>k\<close> be the number of line feeds in the node's value. Then
  \<open>splitToLineNodes\<close> returns \<open>k + 1\<close> Line nodes, in order: their values joined with a line
  feed give back the value; the first range starts at the node's range start, every range is
  as wide as its line, each next range starts exactly one position after the previous one
  ends (the position of the line feed, which belongs to no Line), and the last range ends
  at the node's range start plus the length of the value; the lines together hold
  \<open>value.length - k\<close> code units. The result is a function of the node alone.
\<close>

theorem splitToLineNodes_lines:
  fixes node :: TextContent
  defines "ls \<equiv> splitToLineNodes node"
  shows "length ls = count_list (text_value node) LF + 1
    \<and> join LF (map line_value ls) = text_value node
    \<and> fst (line_range (hd ls)) = fst (text_range node)
    \<and> snd (line_range (last ls)) = fst (text_range node) + int (length (text_value node))
    \<and> (\<forall>i < length ls. snd (line_range (ls ! i)) = fst (line_range (ls ! i)) + int (length (line_value (ls ! i))))
    \<and> (\<forall>i. Suc i < length ls \<longrightarrow> fst (line_range (ls ! Suc i)) = snd (line_range (ls ! i)) + 1)
    \<and> sum_list (map (\<lambda>l. length (line_value l)) ls) + count_list (text_value node) LF = length (text_value node)"
proof -
  let ?vs = "split LF (text_value node)"
  let ?s = "fst (text_range node)"
  have vals: "map line_value ls = ?vs"
    unfolding ls_def splitToLineNodes_def Let_def using forEach_line_values[where acc="[]"] by simp
  have rngs: "map line_range ls = line_ranges ?s ?vs"
    unfolding ls_def splitToLineNodes_def Let_def using forEach_line_ranges[where acc="[]"] by simp
  have len: "length ls = length ?vs" using vals by (metis length_map)
  have ne: "ls \<noteq> []" using len split_not_Nil[of LF "text_value node"] by auto
  have c1: "length ls = count_list (text_value node) LF + 1" using len by (simp add: length_split)
  have c2: "join LF (map line_value ls) = text_value node" by (simp add: vals join_split)
  have c3: "fst (line_range (hd ls)) = ?s"
    using rngs ne line_ranges_hd[of ?vs ?s] split_not_Nil[of LF "text_value node"] by (metis hd_map)
  have "snd (line_range (last ls)) = snd (last (line_ranges ?s ?vs))"
    using rngs ne by (metis last_map)
  also have "\<dots> = ?s + int (sum_list (map length ?vs)) + int (length ?vs) - 1"
    using line_ranges_last[OF split_not_Nil] .
  also have "\<dots> = ?s + int (length (text_value node))"
    using sum_length_split[of LF "text_value node"] by (simp add: length_split)
  finally have c4: "snd (line_range (last ls)) = ?s + int (length (text_value node))" .
  have nth_r: "\<And>i. i < length ls \<Longrightarrow> line_range (ls ! i) = line_ranges ?s ?vs ! i"
    using rngs by (metis nth_map)
  have nth_v: "\<And>i. i < length ls \<Longrightarrow> line_value (ls ! i) = ?vs ! i"
    using vals by (metis nth_map)
  have c5: "\<forall>i < length ls. snd (line_range (ls ! i)) = fst (line_range (ls ! i)) + int (length (line_value (ls ! i)))"
    using nth_r nth_v line_ranges_width[of _ ?vs ?s] len by simp
  have c6: "\<forall>i. Suc i < length ls \<longrightarrow> fst (line_range (ls ! Suc i)) = snd (line_range (ls ! i)) + 1"
    using nth_r line_ranges_next[of _ ?vs ?s] len by simp
  have "map (\<lambda>l. length (line_value l)) ls = map length (map line_value ls)" by simp
  then have c7: "sum_list (map (\<lambda>l. length (line_value l)) ls) + count_list (text_value node) LF = length (text_value node)"
    using sum_length_split[of LF "text_value node"] vals by simp
  from c1 c2 c3 c4 c5 c6 c7 show ?thesis by blast
qed

lemma text_two_lines_val: "map line_range (splitToLineNodes text_two_lines) = [(0,1),(2,3)]"
  by (simp add: text_two_lines_def splitToLineNodes_def str_def Let_def)

text \<open>
  The claim as stated fails: for the value \<open>a\<close>, line feed, \<open>b\<close> at range \<open>[0, 3)\<close> the Line
  ranges are \<open>[0, 1)\<close> and \<open>[2, 3)\<close>; offset 1 is in the node's range and in no Line range, so
  the ranges do not partition the node's range.
\<close>

theorem splitToLineNodes_ranges_not_partition: "(\<Union>l \<in> set (splitToLineNodes text_two_lines). {fst (line_range l) ..< snd (line_range l)}) \<noteq> {fst (text_range text_two_lines) ..< snd (text_range text_two_lines)}"
proof -
  have "(\<Union>l \<in> set (splitToLineNodes text_two_lines). {fst (line_range l) ..< snd (line_range l)}) = (\<Union>r \<in> set (map line_range (splitToLineNodes text_two_lines)). {fst r ..< snd r})"
    by simp
  also have "\<dots> = {0..<1} \<union> {2..<(3::int)}" unfolding text_two_lines_val by simp
  finally have "(1::int) \<notin> (\<Union>l \<in> set (splitToLineNodes text_two_lines). {fst (line_range l) ..< snd (line_range l)})" by simp
  moreover have "(1::int) \<in> {fst (text_range text_two_lines) ..< snd (text_range text_two_lines)}" by (simp add: text_two_lines_def)
  ultimately show ?thesis by blast
qed

theorem splitToLineNodes_lines_witness:
  "length (splitToLineNodes text_two_lines) = 2
   \<and> fst (line_range (splitToLineNodes text_two_lines ! Suc 0))
       = snd (line_range (splitToLineNodes text_two_lines ! 0)) + 1
   \<and> snd (line_range (splitToLineNodes text_two_lines ! 0))
       = fst (line_range (splitToLineNodes text_two_lines ! 0))
         + int (length (line_value (splitToLineNodes text_two_lines ! 0)))"
proof -
  have len: "length (splitToLineNodes text_two_lines) = 2"
    using splitToLineNodes_lines[of text_two_lines] by (simp add: text_two_lines_def str_def)
  then have h0: "0 < length (splitToLineNodes text_two_lines)"
    and h1: "Suc 0 < length (splitToLineNodes text_two_lines)" by simp_all
  from splitToLineNodes_lines[of text_two_lines] h0 h1 len show ?thesis by blast
qed

subsection \<open>Splitting source text into lines\<close>

lemma codeToLines_not_Nil: "codeToLines s \<noteq> []"
  by (induction s rule: codeToLines.induct) (auto split: list.splits)


lemma codeToLines_plain_Cons:
  assumes "c \<notin> {CR, LF, LS, PS}"
  shows "codeToLines (c # s) = (c # hd (codeToLines s)) # tl (codeToLines s)"
proof (cases s)
  case Nil
  with assms show ?thesis by simp
next
  case (Cons d cs)
  obtain l ls where "codeToLines (d # cs) = l # ls"
    using codeToLines_not_Nil[of "d # cs"] by (cases "codeToLines (d # cs)") auto
  with assms Cons show ?thesis by simp
qed

lemma codeToLines_break_Cons:
  assumes "c \<in> {LF, LS, PS}"
  shows "codeToLines (c # s) = [] # codeToLines s"
  using assms by (cases s) auto

lemma codeToLines_CR_Cons:
  assumes "s = [] \<or> hd s \<noteq> LF"
  shows "codeToLines (CR # s) = [] # codeToLines s"
  using assms by (cases s) auto

lemma codeToLines_CRLF_Cons: "codeToLines (CR # LF # s) = [] # codeToLines s"
  by simp

lemma codeToLines_prefix:
  assumes "set a \<inter> {CR, LF, LS, PS} = {}"
  shows "codeToLines (a @ s) = (a @ hd (codeToLines s)) # tl (codeToLines s)"
  using assms
proof (induction a)
  case Nil
  then show ?case using codeToLines_not_Nil[of s] by simp
next
  case (Cons c a)
  then have c: "c \<notin> {CR, LF, LS, PS}" and a: "set a \<inter> {CR, LF, LS, PS} = {}" by auto
  show ?case using codeToLines_plain_Cons[OF c, of "a @ s"] Cons.IH[OF a] by simp
qed

lemma codeToLines_lines_plain: "l \<in> set (codeToLines s) \<Longrightarrow> set l \<inter> {CR, LF, LS, PS} = {}"
proof (induction s arbitrary: l rule: codeToLines.induct)
  case 1
  then show ?case by simp
next
  case (2 c)
  then show ?case by (auto split: if_splits)
next
  case (3 c d cs)
  show ?case
  proof (cases "c = CR \<and> d = LF")
    case True
    with 3 show ?thesis by auto
  next
    case nocrlf: False
    show ?thesis
    proof (cases "c \<in> {CR, LF, LS, PS}")
      case True
      with 3 nocrlf show ?thesis by auto
    next
      case False
      obtain x xs where x: "codeToLines (d # cs) = x # xs"
        using codeToLines_not_Nil[of "d # cs"] by (cases "codeToLines (d # cs)") auto
      with "3.prems" False nocrlf have "l = c # x \<or> l \<in> set xs" by auto
      then show ?thesis
      proof
        assume "l = c # x"
        moreover have "set x \<inter> {CR, LF, LS, PS} = {}" using "3.IH"(3)[OF nocrlf False, of x] x by simp
        ultimately show ?thesis using False by auto
      next
        assume "l \<in> set xs"
        then show ?thesis using "3.IH"(3)[OF nocrlf False, of l] x by simp
      qed
    qed
  qed
qed

text \<open>
  Claim C8, as amended. \<open>codeToLines\<close> splits exactly at CRLF, at a carriage return that no
  line feed follows, at LF, at U+2028 and at U+2029: a stretch \<open>a\<close> free of these four code
  units is kept whole as one line up to the next such separator, a text without any of them
  is a single line, and no returned line contains any of them.
\<close>

theorem codeToLines_breaks:
  assumes "set a \<inter> {CR, LF, LS, PS} = {}"
  shows "codeToLines a = [a]
    \<and> codeToLines (a @ CR # LF # s) = a # codeToLines s
    \<and> codeToLines (a @ LF # s) = a # codeToLines s
    \<and> codeToLines (a @ LS # s) = a # codeToLines s
    \<and> codeToLines (a @ PS # s) = a # codeToLines s
    \<and> ((s = [] \<or> hd s \<noteq> LF) \<longrightarrow> codeToLines (a @ CR # s) = a # codeToLines s)
    \<and> (\<forall>l \<in> set (codeToLines s). set l \<inter> {CR, LF, LS, PS} = {})"
proof -
  have "codeToLines a = [a]" using codeToLines_prefix[OF assms, of "[]"] by simp
  moreover have "codeToLines (a @ CR # LF # s) = a # codeToLines s"
    using codeToLines_prefix[OF assms, of "CR # LF # s"] by simp
  moreover have "codeToLines (a @ LF # s) = a # codeToLines s"
    using codeToLines_prefix[OF assms, of "LF # s"] codeToLines_break_Cons[of LF s] by simp
  moreover have "codeToLines (a @ LS # s) = a # codeToLines s"
    using codeToLines_prefix[OF assms, of "LS # s"] codeToLines_break_Cons[of LS s] by simp
  moreover have "codeToLines (a @ PS # s) = a # codeToLines s"
    using codeToLines_prefix[OF assms, of "PS # s"] codeToLines_break_Cons[of PS s] by simp
  moreover have "(s = [] \<or> hd s \<noteq> LF) \<longrightarrow> codeToLines (a @ CR # s) = a # codeToLines s"
    using codeToLines_prefix[OF assms, of "CR # s"] codeToLines_CR_Cons[of s] by simp
  moreover have "\<forall>l \<in> set (codeToLines s). set l \<inter> {CR, LF, LS, PS} = {}"
    using codeToLines_lines_plain by blast
  ultimately show ?thesis by blast
qed

text \<open>
  The claim as stated fails at \<open>a\<close>, carriage return, \<open>b\<close>: the code splits there, a splitter
  that knows only CRLF, LF, U+2028 and U+2029 does not.
\<close>

theorem codeToLines_splits_at_lone_CR: "codeToLines (str ''a'' @ [CR] @ str ''b'') \<noteq> codeToLines_spec (str ''a'' @ [CR] @ str ''b'')"
  by (simp add: str_def)

theorem codeToLines_breaks_witness:
  "set (str ''ab'') \<inter> {CR, LF, LS, PS} = {}
   \<and> codeToLines (str ''ab'') = [str ''ab'']
   \<and> codeToLines (str ''ab'' @ CR # str ''c'') = [str ''ab'', str ''c'']
   \<and> codeToLines (str ''ab'' @ CR # LF # str ''c'') = [str ''ab'', str ''c'']"
proof -
  have h: "set (str ''ab'') \<inter> {CR, LF, LS, PS} = {}" by (simp add: str_def)
  have c: "set (str ''c'') \<inter> {CR, LF, LS, PS} = {}" by (simp add: str_def)
  have hd: "str ''c'' = [] \<or> hd (str ''c'') \<noteq> LF" by (simp add: str_def)
  have cc: "codeToLines (str ''c'') = [str ''c'']" using codeToLines_breaks[OF c] by blast
  from codeToLines_breaks[OF h, of "str ''c''"] hd cc h show ?thesis by simp
qed

subsection \<open>The closing-tag rule\<close>

lemma Tag_enter_stack:
  "snd (Tag_enter rule node fc) = (if name node \<in> {str ''svg'', str ''math''} then fc @ [name node] else fc)"
  by (simp add: Tag_enter_def Let_def)

lemma foreign_names_snoc:
  "foreign_names (anc @ [node]) = foreign_names anc @ (if name node \<in> {str ''svg'', str ''math''} then [name node] else [])"
  by (simp add: foreign_names_def)

lemma last_foreign_names:
  "foreign_names anc \<noteq> [] \<Longrightarrow> last (foreign_names anc) \<in> {str ''svg'', str ''math''}"
proof -
  assume ne: "foreign_names anc \<noteq> []"
  then have "last (foreign_names anc) \<in> set (foreign_names anc)" by (rule last_in_set)
  then show ?thesis unfolding foreign_names_def by auto
qed

lemma Tag_exit_own_entry:
  "Tag_exit node (foreign_names (anc @ [node])) = foreign_names anc"
proof (cases "name node \<in> {str ''svg'', str ''math''}")
  case True
  then show ?thesis by (simp add: foreign_names_snoc Tag_exit_def)
next
  case False
  then have "foreign_names anc \<noteq> [] \<Longrightarrow> name node \<noteq> last (foreign_names anc)"
    using last_foreign_names[of anc] by auto
  with False show ?thesis by (auto simp: foreign_names_snoc Tag_exit_def)
qed

lemma traverse_invariant:
  "fc = foreign_names anc \<Longrightarrow>
     snd (traverse rule anc n fc) = fc \<and> (\<forall>v \<in> set (fst (traverse rule anc n fc)). visit_ok rule v)"
  "fc = foreign_names anc \<Longrightarrow>
     snd (traverse_children rule anc ns fc) = fc
     \<and> (\<forall>v \<in> set (fst (traverse_children rule anc ns fc)). visit_ok rule v)"
proof (induction rule anc n fc and rule anc ns fc rule: traverse_traverse_children.induct)
  case (1 rule ancestors n ch sc oe cl r l foreignContext)
  let ?node = "Tag n ch sc oe cl r l"
  obtain reports fc1 where te: "Tag_enter rule ?node foreignContext = (reports, fc1)"
    by (cases "Tag_enter rule ?node foreignContext")
  have fc1: "fc1 = foreign_names (ancestors @ [?node])"
    using Tag_enter_stack[of rule ?node foreignContext] te "1.prems"
    by (simp add: foreign_names_snoc)
  obtain visits fc2 where tc: "traverse_children rule (ancestors @ [?node]) ch fc1 = (visits, fc2)"
    by (cases "traverse_children rule (ancestors @ [?node]) ch fc1")
  from "1.IH"[OF refl te[symmetric] refl fc1] tc
  have fc2: "fc2 = fc1" and vis: "\<forall>v \<in> set visits. visit_ok rule v" by simp_all
  have ex: "Tag_exit ?node fc2 = foreignContext"
    using Tag_exit_own_entry[of ?node ancestors] fc2 fc1 "1.prems" by simp
  have own: "visit_ok rule \<lparr> visit_node = ?node, visit_ancestors = ancestors,
            visit_foreignContext = foreignContext, visit_foreignContext_exit = fc2,
            visit_reports = reports \<rparr>"
    using te fc1 fc2 "1.prems" by (simp add: visit_ok_def)
  show ?case using te tc ex own vis by (simp add: Let_def)
next
  case (6 rule ancestors child rest foreignContext)
  obtain visits1 fc1 where t1: "traverse rule ancestors child foreignContext = (visits1, fc1)"
    by (cases "traverse rule ancestors child foreignContext")
  from "6.IH"(1)[OF "6.prems"] t1
  have fc1: "fc1 = foreignContext" and v1: "\<forall>v \<in> set visits1. visit_ok rule v" by simp_all
  obtain visits2 fc2 where t2: "traverse_children rule ancestors rest fc1 = (visits2, fc2)"
    by (cases "traverse_children rule ancestors rest fc1")
  have "fc1 = foreign_names ancestors" using fc1 "6.prems" by simp
  from "6.IH"(2)[OF t1[symmetric] refl this] t2
  have fc2: "fc2 = fc1" and v2: "\<forall>v \<in> set visits2. visit_ok rule v" by simp_all
  show ?case using t1 t2 fc1 fc2 v1 v2 by (auto simp: Let_def)
qed simp_all

lemma checkVoidElement_length: "length (checkVoidElement node s f) \<le> Suc 0"
  by (simp add: checkVoidElement_def Let_def)

lemma checkClosingTag_length: "length (checkClosingTag node) \<le> Suc 0"
  by (simp add: checkClosingTag_def)

lemma Tag_enter_length: "length (fst (Tag_enter rule node fc)) \<le> Suc 0"
  unfolding Tag_enter_def Let_def
  using checkVoidElement_length[of node] checkClosingTag_length[of node] by simp

lemma create_examples:
  "create_closing VOID_ELEMENTS_html RegExp_literal [options_always] = Inr rule_always"
  "create_closing VOID_ELEMENTS_html RegExp_literal [options_never] = Inr rule_never"
  "create_closing VOID_ELEMENTS_html RegExp_literal [options_never_custom] = Inr rule_never_custom"
  "create_closing VOID_ELEMENTS_html RegExp_literal [options_always_custom] = Inr rule_always_custom"
  "create_closing VOID_ELEMENTS_html RegExp_literal [options_always_custom_div] = Inr rule_always_custom_div"
  by (simp_all add: create_closing_def RegExp_literal_def options_always_def options_never_def
      options_never_custom_def options_always_custom_def options_always_custom_div_def
      rule_always_def rule_never_def rule_never_custom_def rule_always_custom_def
      rule_always_custom_div_def)

lemma str_slash_neq: "str ''>'' \<noteq> str ''/>''"
  by (simp add: str_def)

text \<open>
  Claim C9. \<open>checkVoidElement\<close> reports at most one diagnostic, never both \<open>MISSING_SELF\<close> and
  \<open>UNEXPECTED\<close>, and never \<open>MISSING\<close>; the \<open>Tag\<close> handler reports at most one diagnostic; it
  reports \<open>MISSING\<close> exactly when the condition of the self-close check is false (the tag is
  not flagged self-closing, is no void element, has no foreign ancestor on the array and is
  no childless custom element under \<open>allowSelfClosingCustom\<close>), the open-tag end is not \<open>/>\<close>
  and no closing tag was written, and its diagnostics are then those of \<open>checkClosingTag\<close>;
  and every tag visited in a traversal has at most one diagnostic.
\<close>

theorem at_most_one_diagnostic_per_tag:
  "length (checkVoidElement node s f) \<le> 1
   \<and> \<not> (MISSING_SELF \<in> report_messageId ` set (checkVoidElement node s f)
        \<and> UNEXPECTED \<in> report_messageId ` set (checkVoidElement node s f))
   \<and> MISSING \<notin> report_messageId ` set (checkVoidElement node s f)
   \<and> length (fst (Tag_enter rule node fc)) \<le> 1
   \<and> (MISSING \<in> report_messageId ` set (fst (Tag_enter rule node fc))
        \<longleftrightarrow> \<not> selfClosing node \<and> name node \<notin> set (VOID_ELEMENTS rule) \<and> fc = []
            \<and> \<not> (list_ex (\<lambda>i. i (name node)) (customPatterns rule)
                   \<and> allowSelfClosingCustom rule \<and> children node = [])
            \<and> token_value (openEnd node) \<noteq> str ''/>'' \<and> close node = None)
   \<and> (MISSING \<in> report_messageId ` set (fst (Tag_enter rule node fc))
        \<longrightarrow> fst (Tag_enter rule node fc) = checkClosingTag node)
   \<and> (\<forall>v \<in> set (fst (run_closing rule document)). length (visit_reports v) \<le> 1)"
proof -
  have a: "length (checkVoidElement node s f) \<le> 1"
    using checkVoidElement_length[of node s f] by simp
  have b: "\<not> (MISSING_SELF \<in> report_messageId ` set (checkVoidElement node s f)
        \<and> UNEXPECTED \<in> report_messageId ` set (checkVoidElement node s f))"
    by (auto simp: checkVoidElement_def Let_def)
  have c: "\<And>s f. MISSING \<notin> report_messageId ` set (checkVoidElement node s f)"
    by (auto simp: checkVoidElement_def Let_def)
  have d: "length (fst (Tag_enter rule node fc)) \<le> 1"
    using Tag_enter_length[of rule node fc] by simp
  have m: "MISSING \<in> report_messageId ` set (checkClosingTag node) \<longleftrightarrow> close node = None"
    by (cases "close node") (simp_all add: checkClosingTag_def)
  have e: "MISSING \<in> report_messageId ` set (fst (Tag_enter rule node fc))
        \<longleftrightarrow> \<not> selfClosing node \<and> name node \<notin> set (VOID_ELEMENTS rule) \<and> fc = []
            \<and> \<not> (list_ex (\<lambda>i. i (name node)) (customPatterns rule)
                   \<and> allowSelfClosingCustom rule \<and> children node = [])
            \<and> token_value (openEnd node) \<noteq> str ''/>'' \<and> close node = None"
    unfolding Tag_enter_def Let_def using c m by auto
  have e': "MISSING \<in> report_messageId ` set (fst (Tag_enter rule node fc))
        \<longrightarrow> fst (Tag_enter rule node fc) = checkClosingTag node"
    unfolding Tag_enter_def Let_def using c by (auto split: if_splits)
  have f: "\<forall>v \<in> set (fst (run_closing rule document)). length (visit_reports v) \<le> 1"
  proof
    fix v assume "v \<in> set (fst (run_closing rule document))"
    then have "visit_ok rule v"
      using traverse_invariant(2)[of "[]" "[]" rule document]
      by (simp add: run_closing_def foreign_names_def)
    then show "length (visit_reports v) \<le> 1"
      using Tag_enter_length[of rule "visit_node v" "visit_foreignContext v"]
      by (simp add: visit_ok_def)
  qed
  from a b c d e e' f show ?thesis by blast
qed


lemmas closing_eval = Tag_enter_def Tag_exit_def checkVoidElement_def checkClosingTag_def
  VOID_ELEMENTS_html_def tok_def line1_def str_def Let_def

lemma run_svg_g:
  "map visit_foreignContext (fst (run_closing rule_always [svg_g])) = [[], [str ''svg'']]"
  by (simp add: run_closing_def svg_g_def g_in_svg_def rule_always_def closing_eval)

theorem at_most_one_diagnostic_per_tag_witness:
  "MISSING \<in> report_messageId ` set (fst (Tag_enter rule_never foo_open []))
   \<and> fst (Tag_enter rule_never foo_open []) = checkClosingTag foo_open
   \<and> length (fst (run_closing rule_always [svg_g])) = 2
   \<and> length (visit_reports (fst (run_closing rule_always [svg_g]) ! 1)) \<le> 1"
proof -
  have m: "MISSING \<in> report_messageId ` set (fst (Tag_enter rule_never foo_open []))"
    by (simp add: foo_open_def rule_never_def closing_eval)
  have len: "length (fst (run_closing rule_always [svg_g])) = 2"
    using run_svg_g by (metis length_map length_Cons list.size(3) numeral_2_eq_2)
  then have mem: "fst (run_closing rule_always [svg_g]) ! 1 \<in> set (fst (run_closing rule_always [svg_g]))"
    by simp
  from at_most_one_diagnostic_per_tag[where node = foo_open and rule = rule_never and fc = "[]"] m
  have one: "fst (Tag_enter rule_never foo_open []) = checkClosingTag foo_open" by blast
  from at_most_one_diagnostic_per_tag[where rule = rule_always and document = "[svg_g]"] mem
  have "length (visit_reports (fst (run_closing rule_always [svg_g]) ! 1)) \<le> 1" by blast
  with m one len show ?thesis by blast
qed

text \<open>
  Claim C4. \<open>Tag\<close> pushes the name exactly for tags named \<open>svg\<close> or \<open>math\<close>; \<open>Tag:exit\<close> pops
  when the name of the tag that exits is on top of the array. In a traversal of any
  document, when a tag is classified the array holds the names of its \<open>svg\<close> and \<open>math\<close>
  ancestors, so it is non-empty if and only if the tag has such an ancestor; when the tag
  exits, the top of the array is the entry this very tag pushed, if it pushed one, so every
  exit pops exactly the entry of the node that exits and leaves the array as the tag found
  it; the array is empty after the traversal.
\<close>

theorem foreignContext_tracks_foreign_ancestors:
  "snd (Tag_enter rule node fc)
     = (if name node \<in> {str ''svg'', str ''math''} then fc @ [name node] else fc)
   \<and> Tag_exit node fc
     = (if fc \<noteq> [] \<and> name node = last fc then butlast fc else fc)
   \<and> (\<forall>v \<in> set (fst (run_closing rule document)).
        visit_foreignContext v = foreign_names (visit_ancestors v)
        \<and> (visit_foreignContext v \<noteq> []
             \<longleftrightarrow> (\<exists>a \<in> set (visit_ancestors v). name a \<in> {str ''svg'', str ''math''}))
        \<and> visit_foreignContext_exit v
             = visit_foreignContext v
               @ (if name (visit_node v) \<in> {str ''svg'', str ''math''}
                  then [name (visit_node v)] else [])
        \<and> Tag_exit (visit_node v) (visit_foreignContext_exit v) = visit_foreignContext v)
   \<and> snd (run_closing rule document) = []"
proof -
  have inv: "snd (run_closing rule document) = []
      \<and> (\<forall>v \<in> set (fst (run_closing rule document)). visit_ok rule v)"
    using traverse_invariant(2)[of "[]" "[]" rule document]
    by (simp add: run_closing_def foreign_names_def)
  have per_visit: "visit_foreignContext v = foreign_names (visit_ancestors v)
        \<and> (visit_foreignContext v \<noteq> []
             \<longleftrightarrow> (\<exists>a \<in> set (visit_ancestors v). name a \<in> {str ''svg'', str ''math''}))
        \<and> visit_foreignContext_exit v
             = visit_foreignContext v
               @ (if name (visit_node v) \<in> {str ''svg'', str ''math''}
                  then [name (visit_node v)] else [])
        \<and> Tag_exit (visit_node v) (visit_foreignContext_exit v) = visit_foreignContext v"
    if ok: "visit_ok rule v" for v
  proof -
    from ok have fc: "visit_foreignContext v = foreign_names (visit_ancestors v)"
      and fx: "visit_foreignContext_exit v = foreign_names (visit_ancestors v @ [visit_node v])"
      by (simp_all add: visit_ok_def)
    have ne: "visit_foreignContext v \<noteq> []
             \<longleftrightarrow> (\<exists>a \<in> set (visit_ancestors v). name a \<in> {str ''svg'', str ''math''})"
      unfolding fc foreign_names_def by (auto simp: filter_empty_conv)
    have ex: "Tag_exit (visit_node v) (visit_foreignContext_exit v) = visit_foreignContext v"
      unfolding fc fx by (rule Tag_exit_own_entry)
    show ?thesis using fc fx ne ex by (simp add: foreign_names_snoc)
  qed
  have enter: "snd (Tag_enter rule node fc)
     = (if name node \<in> {str ''svg'', str ''math''} then fc @ [name node] else fc)"
    by (rule Tag_enter_stack)
  have exit: "Tag_exit node fc = (if fc \<noteq> [] \<and> name node = last fc then butlast fc else fc)"
    by (simp add: Tag_exit_def)
  from enter exit inv per_visit show ?thesis by blast
qed

theorem foreignContext_tracks_foreign_ancestors_witness:
  "length (fst (run_closing rule_always [svg_g])) = 2
   \<and> visit_foreignContext (fst (run_closing rule_always [svg_g]) ! 1) \<noteq> []
   \<and> (\<exists>a \<in> set (visit_ancestors (fst (run_closing rule_always [svg_g]) ! 1)).
         name a \<in> {str ''svg'', str ''math''})
   \<and> snd (run_closing rule_always [svg_g]) = []"
proof -
  let ?vs = "fst (run_closing rule_always [svg_g])"
  have len: "length ?vs = 2"
    using run_svg_g by (metis length_map length_Cons list.size(3) numeral_2_eq_2)
  then have mem: "?vs ! 1 \<in> set ?vs" by simp
  have "map visit_foreignContext ?vs ! 1 = [str ''svg'']" unfolding run_svg_g by simp
  then have ne: "visit_foreignContext (?vs ! 1) \<noteq> []" using len by simp
  from foreignContext_tracks_foreign_ancestors[where rule = rule_always and document = "[svg_g]"]
    mem ne len
  show ?thesis by blast
qed

lemma Tag_enter_v2_self_closed_custom:
  assumes "selfClosing node" and "0x2D \<in> set (name node)"
    and "token_value (openEnd node) = str ''/>''" and "allowSelfClosingCustom rule"
  shows "Tag_enter_v2 rule node = []"
  using assms by (simp add: Tag_enter_v2_def checkVoidElement_v2_def Let_def)

text \<open>
  Claim C1, evaluated at the source \<open><my-el/>\<close> under \<open>selfClosing = never\<close> and
  \<open>allowSelfClosingCustom\<close>. The second version of the rule in the source file accepts the tag
  as authored, as the claim says. The first version reports \<open>UNEXPECTED\<close> with the fix that
  rewrites the open-tag end to \<open>>\<close>; the tag \<open><my-el>\<close> that this fix leaves, with no closing
  tag, is then accepted under \<open>allowSelfClosingCustom\<close> and reported \<open>MISSING\<close> without it.
\<close>

theorem self_closed_custom_element_never_unexpected:
  "create_closing VOID_ELEMENTS_html RegExp_literal [options_never_custom] = Inr rule_never_custom
   \<and> 0x2D \<in> set (name my_el) \<and> selfClosing my_el \<and> token_value (openEnd my_el) = str ''/>''
   \<and> allowSelfClosingCustom rule_never_custom
   \<and> Tag_enter_v2 rule_never_custom my_el = []
   \<and> fst (Tag_enter rule_never_custom my_el [])
       = [\<lparr> report_node = AToken (openEnd my_el), report_messageId = UNEXPECTED,
             report_tag = str ''my-el'',
             report_fix = Some [ReplaceText (AToken (openEnd my_el)) (str ''>'')] \<rparr>]
   \<and> fst (Tag_enter rule_never_custom my_el_open []) = []
   \<and> map report_messageId (fst (Tag_enter rule_never my_el_open [])) = [MISSING]"
proof -
  have v2: "Tag_enter_v2 rule_never_custom my_el = []"
    by (rule Tag_enter_v2_self_closed_custom)
       (simp_all add: my_el_def rule_never_custom_def tok_def str_def)
  have v1: "0x2D \<in> set (name my_el) \<and> selfClosing my_el \<and> token_value (openEnd my_el) = str ''/>''
   \<and> allowSelfClosingCustom rule_never_custom
   \<and> fst (Tag_enter rule_never_custom my_el [])
       = [\<lparr> report_node = AToken (openEnd my_el), report_messageId = UNEXPECTED,
             report_tag = str ''my-el'',
             report_fix = Some [ReplaceText (AToken (openEnd my_el)) (str ''>'')] \<rparr>]"
    by (simp add: my_el_def rule_never_custom_def closing_eval)
  have fixed: "fst (Tag_enter rule_never_custom my_el_open []) = []
   \<and> map report_messageId (fst (Tag_enter rule_never my_el_open [])) = [MISSING]"
    by (simp add: my_el_open_def rule_never_custom_def rule_never_def closing_eval)
  from create_examples(3) v2 v1 fixed show ?thesis by blast
qed

text \<open>
  Claim C2, evaluated at the source \<open><img>\<close> under \<open>selfClosing = always\<close>: the tag has no closing
  tag, \<open>MISSING_SELF\<close> is reported, and its fix is the rewrite of the open-tag end to \<open> />\<close>
  followed by \<open>fixer.remove\<close> applied to the absent closing tag, which is no well-formed
  edit. Under \<open>selfClosing = never\<close> the source \<open><img />\<close> is reported \<open>UNEXPECTED\<close> with the fix
  that rewrites the open-tag end to \<open>>\<close>.
\<close>

theorem void_always_fix_removes_absent_close:
  "create_closing VOID_ELEMENTS_html RegExp_literal [options_always] = Inr rule_always
   \<and> close img_open = None
   \<and> fst (Tag_enter rule_always img_open [])
       = [\<lparr> report_node = AToken (openEnd img_open), report_messageId = MISSING_SELF,
             report_tag = str ''img'',
             report_fix = Some [ReplaceText (AToken (openEnd img_open)) (str '' />''),
                                Remove None] \<rparr>]
   \<and> \<not> list_all edit_wellformed
         [ReplaceText (AToken (openEnd img_open)) (str '' />''), Remove None]
   \<and> create_closing VOID_ELEMENTS_html RegExp_literal [options_never] = Inr rule_never
   \<and> fst (Tag_enter rule_never img_slash [])
       = [\<lparr> report_node = AToken (openEnd img_slash), report_messageId = UNEXPECTED,
             report_tag = str ''img'',
             report_fix = Some [ReplaceText (AToken (openEnd img_slash)) (str ''>'')] \<rparr>]"
  using create_examples(1,2)
  by (simp add: img_open_def img_slash_def rule_always_def rule_never_def closing_eval)

text \<open>
  Claim C3, as amended. For a tag named \<open>div\<close> written \<open><div></div>\<close> (open-tag end \<open>>\<close>,
  closing tag present, no children) outside any foreign context, the rule reports nothing
  under every configuration except those that combine \<open>selfClosing = always\<close>,
  \<open>allowSelfClosingCustom\<close> and a custom pattern that matches \<open>div\<close>; \<open>div\<close> is taken not to be
  a void element.
\<close>

theorem div_closed_no_diagnostics:
  assumes "name node = str ''div''"
    and "str ''div'' \<notin> set (VOID_ELEMENTS rule)"
    and "\<not> selfClosing node"
    and "token_value (openEnd node) = str ''>''"
    and "close node \<noteq> None"
    and "children node = []"
    and "\<not> (preferSelfClose rule \<and> allowSelfClosingCustom rule
            \<and> list_ex (\<lambda>i. i (str ''div'')) (customPatterns rule))"
  shows "fst (Tag_enter rule node []) = []
    \<and> (isTag node \<longrightarrow> concat (map visit_reports (fst (run_closing rule [node]))) = [])"
proof -
  have enter: "fst (Tag_enter rule node []) = []"
    using assms str_slash_neq
    by (auto simp: Tag_enter_def checkVoidElement_def checkClosingTag_def Let_def)
  have "concat (map visit_reports (fst (run_closing rule [node]))) = []" if "isTag node"
  proof -
    from that assms(6) obtain n sc oe cl r l where node: "node = Tag n [] sc oe cl r l"
      by (cases node) auto
    obtain reports fc1 where te: "Tag_enter rule node [] = (reports, fc1)"
      by (cases "Tag_enter rule node []")
    with enter have "reports = []" by simp
    with te node show ?thesis by (simp add: run_closing_def Let_def)
  qed
  with enter show ?thesis by blast
qed

theorem div_closed_no_diagnostics_witness:
  "fst (Tag_enter rule_always_custom div_closed []) = []
   \<and> concat (map visit_reports (fst (run_closing rule_always_custom [div_closed]))) = []"
proof -
  have "name div_closed = str ''div''" "str ''div'' \<notin> set (VOID_ELEMENTS rule_always_custom)"
    "\<not> selfClosing div_closed" "token_value (openEnd div_closed) = str ''>''"
    "close div_closed \<noteq> None" "children div_closed = []"
    "\<not> (preferSelfClose rule_always_custom \<and> allowSelfClosingCustom rule_always_custom
            \<and> list_ex (\<lambda>i. i (str ''div'')) (customPatterns rule_always_custom))"
    "isTag div_closed"
    by (simp_all add: div_closed_def rule_always_custom_def VOID_ELEMENTS_html_def tok_def str_def)
  from div_closed_no_diagnostics[OF this(1-7)] this(8) show ?thesis by blast
qed

text \<open>
  The claim as stated fails for the options \<open>selfClosing = always\<close>,
  \<open>allowSelfClosingCustom = true\<close>, \<open>customPatterns = ["div"]\<close>: \<open><div></div>\<close> is reported
  \<open>MISSING_SELF\<close>.
\<close>

theorem div_closed_custom_pattern_missing_self:
  "create_closing VOID_ELEMENTS_html RegExp_literal [options_always_custom_div]
     = Inr rule_always_custom_div
   \<and> name div_closed = str ''div'' \<and> token_value (openEnd div_closed) = str ''>''
   \<and> close div_closed \<noteq> None \<and> children div_closed = []
   \<and> map report_messageId (fst (Tag_enter rule_always_custom_div div_closed [])) = [MISSING_SELF]"
  using create_examples(5)
  by (simp add: div_closed_def rule_always_custom_div_def closing_eval)

subsection \<open>The newline rule\<close>

lemmas newline_eval = isEmptyText_def isNotNewlineEnd_def isNotNewlineStart_def label_def
  shouldBeNewline_def check_open_close_def check_next_def toLowerCase_def trim_def
  isWhiteSpace_def test_some_newline_def text_at_def tok_def line1_def str_def Let_def

lemma create_inline: "create_newline [options_inline] = Inr rule_inline"
  by (simp add: create_newline_def options_inline_def rule_inline_def str_def)

lemma create_inline_SPAN: "create_newline [options_inline_SPAN] = Inr rule_inline_SPAN"
  by (simp add: create_newline_def options_inline_SPAN_def rule_inline_SPAN_def str_def
      Object_prototype_keys_def)

lemma checkSiblings_loop_Cons:
  "\<exists>meta'. snd (checkSiblings_loop u rule (node # rest) meta)
     = (if isTag node \<and> name node \<notin> set (skipTags rule)
        then snd (checkSiblings u rule (children node))
             @ (if shouldBeNewline u rule node
                   \<and> meta_shouldBeNewline (fst (checkSiblings u rule (children node)))
                then check_open_close node (fst (checkSiblings u rule (children node))) else [])
        else [])
       @ check_next u rule node (case rest of [] \<Rightarrow> None | n # _ \<Rightarrow> Some n)
       @ snd (checkSiblings_loop u rule rest meta')"
proof -
  define meta2 where
    "meta2 = (if childFirst meta = None then meta\<lparr> childFirst := Some node \<rparr> else meta)
               \<lparr> childLast := Some node \<rparr>"
  define meta3 where
    "meta3 = (if isTag node \<and> name node \<notin> set (skipTags rule)
              then (if shouldBeNewline u rule node
                       \<or> meta_shouldBeNewline (fst (checkSiblings u rule (children node)))
                    then meta2\<lparr> meta_shouldBeNewline := True \<rparr> else meta2)
              else meta2)"
  have "snd (checkSiblings_loop u rule (node # rest) meta)
     = (if isTag node \<and> name node \<notin> set (skipTags rule)
        then snd (checkSiblings u rule (children node))
             @ (if shouldBeNewline u rule node
                   \<and> meta_shouldBeNewline (fst (checkSiblings u rule (children node)))
                then check_open_close node (fst (checkSiblings u rule (children node))) else [])
        else [])
       @ check_next u rule node (case rest of [] \<Rightarrow> None | n # _ \<Rightarrow> Some n)
       @ snd (checkSiblings_loop u rule rest meta3)"
    unfolding meta3_def meta2_def
    by (simp add: Let_def split_beta del: checkSiblings.simps)
  then show ?thesis by blast
qed

lemma checkSiblings_loop_next:
  "Suc i < length nodes \<Longrightarrow>
     set (check_next u rule (nodes ! i) (Some (nodes ! Suc i)))
       \<subseteq> set (snd (checkSiblings_loop u rule nodes meta))"
proof (induction nodes arbitrary: i meta)
  case Nil
  then show ?case by simp
next
  case (Cons node rest)
  obtain meta' pre where eq: "snd (checkSiblings_loop u rule (node # rest) meta)
      = pre @ check_next u rule node (case rest of [] \<Rightarrow> None | n # _ \<Rightarrow> Some n)
        @ snd (checkSiblings_loop u rule rest meta')"
    using checkSiblings_loop_Cons[of u rule node rest meta] by blast
  show ?case
  proof (cases i)
    case 0
    with Cons.prems obtain n ns where "rest = n # ns" by (cases rest) auto
    with 0 eq show ?thesis by auto
  next
    case (Suc j)
    with Cons.prems have "Suc j < length rest" by simp
    from Cons.IH[OF this, of meta'] Suc eq show ?thesis by auto
  qed
qed

lemma checkSiblings_loop_children:
  "node \<in> set nodes \<Longrightarrow> isTag node \<Longrightarrow> name node \<notin> set (skipTags rule) \<Longrightarrow>
     set (snd (checkSiblings u rule (children node)))
       \<subseteq> set (snd (checkSiblings_loop u rule nodes meta))"
proof (induction nodes arbitrary: meta)
  case Nil
  then show ?case by simp
next
  case (Cons x rest)
  obtain meta' where eq: "snd (checkSiblings_loop u rule (x # rest) meta)
     = (if isTag x \<and> name x \<notin> set (skipTags rule)
        then snd (checkSiblings u rule (children x))
             @ (if shouldBeNewline u rule x
                   \<and> meta_shouldBeNewline (fst (checkSiblings u rule (children x)))
                then check_open_close x (fst (checkSiblings u rule (children x))) else [])
        else [])
       @ check_next u rule x (case rest of [] \<Rightarrow> None | n # _ \<Rightarrow> Some n)
       @ snd (checkSiblings_loop u rule rest meta')"
    using checkSiblings_loop_Cons[of u rule x rest meta] by blast
  show ?case
  proof (cases "node = x")
    case True
    with Cons.prems eq show ?thesis by auto
  next
    case False
    with Cons.prems have "node \<in> set rest" by simp
    from Cons.IH[OF this Cons.prems(2,3), of meta'] eq show ?thesis by auto
  qed
qed

lemma isTag_not_empty: "isTag node \<Longrightarrow> \<not> isEmptyText node"
  by (cases node) (auto simp: isEmptyText_def)

lemma member_children_checked:
  assumes "isTag node" and "node \<in> set siblings" and "name node \<notin> set (skipTags rule)"
  shows "set (snd (checkSiblings u rule (children node)))
           \<subseteq> set (snd (checkSiblings u rule siblings))"
proof -
  from assms(1,2) have "node \<in> set (filter (\<lambda>node. isEmptyText node = False) siblings)"
    using isTag_not_empty[of node] by simp
  from checkSiblings_loop_children[OF this assms(1,3)] show ?thesis by simp
qed

lemma reached_children_checked:
  "node \<in> set (reached rule x) \<Longrightarrow> isTag node \<Longrightarrow> name node \<notin> set (skipTags rule) \<Longrightarrow>
   x \<in> set siblings \<Longrightarrow>
     set (snd (checkSiblings u rule (children node))) \<subseteq> set (snd (checkSiblings u rule siblings))"
proof (induction rule x arbitrary: siblings rule: reached.induct)
  case (1 rule n ch sc oe cl r l)
  let ?x = "Tag n ch sc oe cl r l"
  show ?case
  proof (cases "node = ?x")
    case True
    with "1.prems" show ?thesis using member_children_checked[of node siblings rule u] by simp
  next
    case False
    with "1.prems"(1) have skip: "n \<notin> set (skipTags rule)"
      and "node \<in> set (concat (map (reached rule) ch))"
      by (auto split: if_splits)
    then obtain c where c: "c \<in> set ch" "node \<in> set (reached rule c)" by auto
    from "1.IH"[OF skip c(1) c(2) "1.prems"(2,3) c(1)]
    have inner: "set (snd (checkSiblings u rule (children node)))
        \<subseteq> set (snd (checkSiblings u rule ch))" .
    have "set (snd (checkSiblings u rule (children ?x))) \<subseteq> set (snd (checkSiblings u rule siblings))"
      using member_children_checked[of ?x siblings rule u] "1.prems"(4) skip by simp
    with inner show ?thesis by simp
  qed
next
  case (2 rule t)
  then show ?case by simp
next
  case (3 rule c r l)
  then show ?case by simp
next
  case (4 rule t r l)
  then show ?case by simp
qed

lemma shouldBeNewline_Tag:
  "isTag node \<Longrightarrow>
     shouldBeNewline u rule node \<longleftrightarrow> toLowerCase u (name node) \<notin> set (inlineTags rule)"
  by (cases node) (auto simp: shouldBeNewline_def)

lemma skipped_tag_alone:
  "isTag node \<Longrightarrow> name node \<in> set (skipTags rule) \<Longrightarrow> snd (checkSiblings u rule [node]) = []"
  using isTag_not_empty[of node] by (simp add: Let_def check_next_def)

lemma ascii_lower_bounds:
  fixes c :: "16 word"
  assumes "0x41 \<le> c" and "c \<le> 0x5A"
  shows "c + 0x20 < 0x80" and "\<not> c + 0x20 \<le> 0x5A"
proof -
  from assms have u: "65 \<le> unat c" "unat c \<le> 90"
    by (simp_all add: word_le_nat_alt)
  then have "unat (c + 0x20) = unat c + 32"
    by (simp add: unat_add_lem[THEN iffD1])
  with u show "c + 0x20 < 0x80" and "\<not> c + 0x20 \<le> 0x5A"
    by (simp_all add: word_less_nat_alt word_le_nat_alt)
qed

lemma toLowerCase_ascii_only_idem:
  "toLowerCase ascii_only (toLowerCase ascii_only s) = toLowerCase ascii_only s"
proof (cases "list_all (\<lambda>c. c < 0x80) s")
  case True
  define f where "f = (\<lambda>c::16 word. if 0x41 \<le> c \<and> c \<le> 0x5A then c + 0x20 else c)"
  have f_ascii: "f c < 0x80" if "c < 0x80" for c
  proof (cases "0x41 \<le> c \<and> c \<le> 0x5A")
    case True
    then show ?thesis using ascii_lower_bounds(1)[of c] by (simp add: f_def)
  next
    case False
    then have "f c = c" by (auto simp: f_def)
    with that show ?thesis by simp
  qed
  have f_idem: "f (f c) = f c" for c
  proof (cases "0x41 \<le> c \<and> c \<le> 0x5A")
    case True
    then have "f c = c + 0x20" by (simp add: f_def)
    moreover have "f (c + 0x20) = c + 0x20"
      using ascii_lower_bounds(2)[of c] True by (simp add: f_def)
    ultimately show ?thesis by simp
  next
    case False
    then have "f c = c" by (auto simp: f_def)
    then show ?thesis by simp
  qed
  have low: "toLowerCase ascii_only t = map f t" if "list_all (\<lambda>c. c < 0x80) t" for t
    using that by (simp add: toLowerCase_def f_def)
  have asc: "list_all (\<lambda>c. c < 0x80) (map f s)"
    using True f_ascii by (simp add: list_all_iff)
  have "toLowerCase ascii_only (toLowerCase ascii_only s) = map f (map f s)"
    using low[OF True] low[OF asc] by simp
  also have "\<dots> = map f s" using f_idem by simp
  finally show ?thesis using low[OF True] by simp
next
  case False
  then show ?thesis by (simp add: toLowerCase_def ascii_only_def)
qed

text \<open>
  Claim C6, as amended. Take the nodes with content of a sibling group and two adjacent ones
  of them, the earlier ending on the line where the later starts. If the earlier wants a
  newline, then \<open>EXPECT_NEW_LINE_AFTER\<close> is reported when the later does not start with a line
  break, with the fix that inserts a line feed after the earlier node, and this check
  reports nothing when the later does start with one. If the earlier does not want a
  newline, the later wants one and the earlier does not end with a line break, then
  \<open>EXPECT_NEW_LINE_BEFORE\<close> is reported with the fix that inserts a line feed before the later
  node. With \<open>inline: ["$inline"]\<close>, the source \<open><p><b>x</b><div>y</div></p>\<close> on one line gets
  \<open>EXPECT_NEW_LINE_BEFORE\<close> for the \<open>div\<close>, with the fix that inserts a line feed before it.
\<close>

theorem adjacent_siblings_on_one_line:
  assumes "nodes = filter (\<lambda>node. \<not> isEmptyText node) siblings"
    and "Suc i < length nodes"
    and "line (loc_end (loc (nodes ! i))) = line (loc_start (loc (nodes ! Suc i)))"
  shows "(shouldBeNewline u rule (nodes ! i) \<and> isNotNewlineStart (nodes ! Suc i) \<longrightarrow>
           \<lparr> report_node = ANode (nodes ! Suc i), report_messageId = EXPECT_NEW_LINE_AFTER,
             report_tag = label (nodes ! i) False,
             report_fix = Some [InsertTextAfter (ANode (nodes ! i)) [LF]] \<rparr>
           \<in> set (snd (checkSiblings u rule siblings)))
    \<and> (\<not> shouldBeNewline u rule (nodes ! i) \<and> shouldBeNewline u rule (nodes ! Suc i)
        \<and> isNotNewlineEnd (nodes ! i) \<longrightarrow>
           \<lparr> report_node = ANode (nodes ! Suc i), report_messageId = EXPECT_NEW_LINE_BEFORE,
             report_tag = label (nodes ! Suc i) False,
             report_fix = Some [InsertTextBefore (ANode (nodes ! Suc i)) [LF]] \<rparr>
           \<in> set (snd (checkSiblings u rule siblings)))
    \<and> (shouldBeNewline u rule (nodes ! i) \<and> \<not> isNotNewlineStart (nodes ! Suc i) \<longrightarrow>
           check_next u rule (nodes ! i) (Some (nodes ! Suc i)) = [])
    \<and> create_newline [options_inline] = Inr rule_inline
    \<and> \<lparr> report_node = ANode div_y, report_messageId = EXPECT_NEW_LINE_BEFORE,
        report_tag = str ''<div>'',
        report_fix = Some [InsertTextBefore (ANode div_y) [LF]] \<rparr>
      \<in> set (snd (checkSiblings u rule_inline [p_b_div]))"
proof -
  have sub: "set (check_next u rule (nodes ! i) (Some (nodes ! Suc i)))
      \<subseteq> set (snd (checkSiblings u rule siblings))"
    using checkSiblings_loop_next[OF assms(2)] assms(1) by simp
  have a: "shouldBeNewline u rule (nodes ! i) \<and> isNotNewlineStart (nodes ! Suc i) \<longrightarrow>
           \<lparr> report_node = ANode (nodes ! Suc i), report_messageId = EXPECT_NEW_LINE_AFTER,
             report_tag = label (nodes ! i) False,
             report_fix = Some [InsertTextAfter (ANode (nodes ! i)) [LF]] \<rparr>
           \<in> set (check_next u rule (nodes ! i) (Some (nodes ! Suc i)))"
    using assms(3) by (simp add: check_next_def)
  have b: "\<not> shouldBeNewline u rule (nodes ! i) \<and> shouldBeNewline u rule (nodes ! Suc i)
        \<and> isNotNewlineEnd (nodes ! i) \<longrightarrow>
           \<lparr> report_node = ANode (nodes ! Suc i), report_messageId = EXPECT_NEW_LINE_BEFORE,
             report_tag = label (nodes ! Suc i) False,
             report_fix = Some [InsertTextBefore (ANode (nodes ! Suc i)) [LF]] \<rparr>
           \<in> set (check_next u rule (nodes ! i) (Some (nodes ! Suc i)))"
    using assms(3) by (simp add: check_next_def)
  have c: "shouldBeNewline u rule (nodes ! i) \<and> \<not> isNotNewlineStart (nodes ! Suc i) \<longrightarrow>
           check_next u rule (nodes ! i) (Some (nodes ! Suc i)) = []"
    by (simp add: check_next_def)
  have d: "\<lparr> report_node = ANode div_y, report_messageId = EXPECT_NEW_LINE_BEFORE,
        report_tag = str ''<div>'',
        report_fix = Some [InsertTextBefore (ANode div_y) [LF]] \<rparr>
      \<in> set (snd (checkSiblings u rule_inline [p_b_div]))"
    by (simp add: p_b_div_def b_x_def div_y_def rule_inline_def PRESETS_inline_def newline_eval)
  from sub a b c d create_inline show ?thesis by blast
qed

theorem adjacent_siblings_on_one_line_witness:
  "\<lparr> report_node = ANode div_y, report_messageId = EXPECT_NEW_LINE_BEFORE,
      report_tag = label div_y False,
      report_fix = Some [InsertTextBefore (ANode div_y) [LF]] \<rparr>
     \<in> set (snd (checkSiblings ascii_only rule_inline [b_x, div_y]))
   \<and> \<lparr> report_node = ANode text_foo, report_messageId = EXPECT_NEW_LINE_AFTER,
        report_tag = label div_closed False,
        report_fix = Some [InsertTextAfter (ANode div_closed) [LF]] \<rparr>
     \<in> set (snd (checkSiblings ascii_only rule_inline [div_closed, text_foo]))"
proof -
  have f1: "[b_x, div_y] = filter (\<lambda>node. \<not> isEmptyText node) [b_x, div_y]"
    by (simp add: b_x_def div_y_def isEmptyText_def)
  have n1: "Suc 0 < length [b_x, div_y]" by simp
  have l1: "line (loc_end (loc ([b_x, div_y] ! 0))) = line (loc_start (loc ([b_x, div_y] ! Suc 0)))"
    by (simp add: b_x_def div_y_def line1_def)
  have c1: "\<not> shouldBeNewline ascii_only rule_inline ([b_x, div_y] ! 0)
      \<and> shouldBeNewline ascii_only rule_inline ([b_x, div_y] ! Suc 0)
      \<and> isNotNewlineEnd ([b_x, div_y] ! 0)"
    by (simp add: b_x_def div_y_def rule_inline_def PRESETS_inline_def newline_eval)
  have f2: "[div_closed, text_foo] = filter (\<lambda>node. \<not> isEmptyText node) [div_closed, text_foo]"
    by (simp add: div_closed_def text_foo_def newline_eval)
  have n2: "Suc 0 < length [div_closed, text_foo]" by simp
  have l2: "line (loc_end (loc ([div_closed, text_foo] ! 0)))
      = line (loc_start (loc ([div_closed, text_foo] ! Suc 0)))"
    by (simp add: div_closed_def text_foo_def text_at_def line1_def)
  have c2: "shouldBeNewline ascii_only rule_inline ([div_closed, text_foo] ! 0)
      \<and> isNotNewlineStart ([div_closed, text_foo] ! Suc 0)"
    by (simp add: div_closed_def text_foo_def rule_inline_def PRESETS_inline_def newline_eval)
  from adjacent_siblings_on_one_line[OF f1 n1 l1, where u = ascii_only and rule = rule_inline] c1
       adjacent_siblings_on_one_line[OF f2 n2 l2, where u = ascii_only and rule = rule_inline] c2
  show ?thesis by simp
qed

text \<open>
  The claim as stated fails for \<open><div></div>\<close> followed on its line by a text that starts with
  a line feed and spans several lines: the first condition (the earlier wants a newline and
  the later does not start with a line break) is false, the second (the later wants a
  newline and the earlier does not end with a line break) is true, and nothing is reported.
\<close>

theorem later_starts_with_line_break_no_report:
  "filter (\<lambda>node. \<not> isEmptyText node) [div_closed, text_foo_bar] = [div_closed, text_foo_bar]
   \<and> line (loc_end (loc div_closed)) = line (loc_start (loc text_foo_bar))
   \<and> \<not> (shouldBeNewline ascii_only rule_inline div_closed \<and> isNotNewlineStart text_foo_bar)
   \<and> shouldBeNewline ascii_only rule_inline text_foo_bar \<and> isNotNewlineEnd div_closed
   \<and> snd (checkSiblings ascii_only rule_inline [div_closed, text_foo_bar]) = []"
  by (simp add: div_closed_def text_foo_bar_def rule_inline_def PRESETS_inline_def newline_eval)

text \<open>
  Claim C10, as amended. \<open>skip\<close> is compared with the tag name as written. Of every tag the
  rule reaches (a member of the group, or a child of a reached tag whose name is no \<open>skip\<close>
  entry) and whose name is not itself a \<open>skip\<close> entry, also when the name differs from an entry
  only in case, the children are checked: their diagnostics are among those of the group. A
  tag whose name is a \<open>skip\<close> entry gets no diagnostics from its children. \<open>inline\<close> is compared
  with the lowercased tag name: a tag wants a newline exactly when its lowercased name is no
  \<open>inline\<close> entry; so a tag that differs only in case from an entry that is its own lowercase
  is inline, and, lowercasing being idempotent, an entry that is not its own lowercase
  matches no tag: tags are classified as if it were not there.
\<close>

theorem skip_as_written_inline_lowercased:
  "(isTag node \<and> node \<in> set (concat (map (reached rule) siblings))
      \<and> name node \<notin> set (skipTags rule) \<longrightarrow>
      set (snd (checkSiblings u rule (children node)))
        \<subseteq> set (snd (checkSiblings u rule siblings)))
   \<and> (isTag node \<and> name node \<in> set (skipTags rule) \<longrightarrow> snd (checkSiblings u rule [node]) = [])
   \<and> (isTag node \<longrightarrow>
        (shouldBeNewline u rule node \<longleftrightarrow> toLowerCase u (name node) \<notin> set (inlineTags rule)))
   \<and> (isTag node \<and> e \<in> set (inlineTags rule) \<and> toLowerCase u e = e
        \<and> toLowerCase u (name node) = toLowerCase u e \<longrightarrow> \<not> shouldBeNewline u rule node)
   \<and> ((\<forall>s. toLowerCase u (toLowerCase u s) = toLowerCase u s) \<and> toLowerCase u e \<noteq> e
        \<and> isTag node \<longrightarrow>
          toLowerCase u (name node) \<noteq> e
          \<and> shouldBeNewline u (rule\<lparr> inlineTags := removeAll e (inlineTags rule) \<rparr>) node
              = shouldBeNewline u rule node)"
proof -
  have a: "set (snd (checkSiblings u rule (children node)))
      \<subseteq> set (snd (checkSiblings u rule siblings))"
    if "isTag node" "node \<in> set (concat (map (reached rule) siblings))"
       "name node \<notin> set (skipTags rule)"
  proof -
    from that(2) obtain x where "x \<in> set siblings" "node \<in> set (reached rule x)" by auto
    from reached_children_checked[OF this(2) that(1,3) this(1)] show ?thesis .
  qed
  have b: "snd (checkSiblings u rule [node]) = []"
    if "isTag node" "name node \<in> set (skipTags rule)"
    using skipped_tag_alone[OF that] .
  have c: "shouldBeNewline u rule node \<longleftrightarrow> toLowerCase u (name node) \<notin> set (inlineTags rule)"
    if "isTag node"
    using shouldBeNewline_Tag[OF that] .
  have d: "\<not> shouldBeNewline u rule node"
    if "isTag node" "e \<in> set (inlineTags rule)" "toLowerCase u e = e"
       "toLowerCase u (name node) = toLowerCase u e"
    using shouldBeNewline_Tag[OF that(1), of u rule] that(2,3,4) by simp
  have e: "toLowerCase u (name node) \<noteq> e
          \<and> shouldBeNewline u (rule\<lparr> inlineTags := removeAll e (inlineTags rule) \<rparr>) node
              = shouldBeNewline u rule node"
    if idem: "\<forall>s. toLowerCase u (toLowerCase u s) = toLowerCase u s"
      and up: "toLowerCase u e \<noteq> e" and tag: "isTag node"
  proof -
    have ne: "toLowerCase u (name node) \<noteq> e"
    proof
      assume "toLowerCase u (name node) = e"
      with idem have "toLowerCase u e = e" by metis
      with up show False by simp
    qed
    then show ?thesis
      using shouldBeNewline_Tag[OF tag, of u rule]
        shouldBeNewline_Tag[OF tag, of u "rule\<lparr> inlineTags := removeAll e (inlineTags rule) \<rparr>"]
      by simp
  qed
  from a b c d e show ?thesis by blast
qed

theorem skip_as_written_inline_lowercased_witness:
  "\<lparr> report_node = ANode div_in_PRE, report_messageId = EXPECT_NEW_LINE_BEFORE,
      report_tag = label div_in_PRE False,
      report_fix = Some [InsertTextBefore (ANode div_in_PRE) [LF]] \<rparr>
     \<in> set (snd (checkSiblings ascii_only rule_skip_pre [body_PRE]))
   \<and> toLowerCase ascii_only (name PRE_b_div) = str ''pre''
   \<and> \<not> shouldBeNewline ascii_only rule_inline SPAN_tag
   \<and> toLowerCase ascii_only (name span_tag) \<noteq> str ''SPAN''"
proof -
  have t: "isTag PRE_b_div \<and> PRE_b_div \<in> set (concat (map (reached rule_skip_pre) [body_PRE]))
      \<and> name PRE_b_div \<notin> set (skipTags rule_skip_pre)"
    by (simp add: body_PRE_def PRE_b_div_def rule_skip_pre_def str_def)
  have ch: "children PRE_b_div = [b_in_PRE, div_in_PRE]" by (simp add: PRE_b_div_def)
  have r: "\<lparr> report_node = ANode div_in_PRE, report_messageId = EXPECT_NEW_LINE_BEFORE,
      report_tag = label div_in_PRE False,
      report_fix = Some [InsertTextBefore (ANode div_in_PRE) [LF]] \<rparr>
     \<in> set (snd (checkSiblings ascii_only rule_skip_pre [b_in_PRE, div_in_PRE]))"
    by (simp add: b_in_PRE_def div_in_PRE_def rule_skip_pre_def PRESETS_inline_def newline_eval)
  have lower: "toLowerCase ascii_only (name PRE_b_div) = str ''pre''"
    by (simp add: PRE_b_div_def toLowerCase_def str_def)
  have s: "isTag SPAN_tag \<and> str ''span'' \<in> set (inlineTags rule_inline)
      \<and> toLowerCase ascii_only (str ''span'') = str ''span''
      \<and> toLowerCase ascii_only (name SPAN_tag) = toLowerCase ascii_only (str ''span'')"
    by (simp add: SPAN_tag_def rule_inline_def PRESETS_inline_def toLowerCase_def str_def)
  have up: "(\<forall>s. toLowerCase ascii_only (toLowerCase ascii_only s) = toLowerCase ascii_only s)
      \<and> toLowerCase ascii_only (str ''SPAN'') \<noteq> str ''SPAN'' \<and> isTag span_tag"
    using toLowerCase_ascii_only_idem by (simp add: span_tag_def toLowerCase_def str_def)
  from skip_as_written_inline_lowercased[where node = PRE_b_div and siblings = "[body_PRE]"
      and rule = rule_skip_pre and u = ascii_only] t
  have "set (snd (checkSiblings ascii_only rule_skip_pre (children PRE_b_div)))
      \<subseteq> set (snd (checkSiblings ascii_only rule_skip_pre [body_PRE]))" by blast
  from this[unfolded ch] r
  have one: "\<lparr> report_node = ANode div_in_PRE, report_messageId = EXPECT_NEW_LINE_BEFORE,
      report_tag = label div_in_PRE False,
      report_fix = Some [InsertTextBefore (ANode div_in_PRE) [LF]] \<rparr>
     \<in> set (snd (checkSiblings ascii_only rule_skip_pre [body_PRE]))" by blast
  from skip_as_written_inline_lowercased[where node = SPAN_tag and rule = rule_inline
      and u = ascii_only and e = "str ''span''"] s
  have two: "\<not> shouldBeNewline ascii_only rule_inline SPAN_tag" by blast
  from skip_as_written_inline_lowercased[where node = span_tag and u = ascii_only
      and e = "str ''SPAN''"] up
  have three: "toLowerCase ascii_only (name span_tag) \<noteq> str ''SPAN''" by blast
  from one lower two three show ?thesis by blast
qed

text \<open>
  The claim as stated fails for \<open>inline: ["SPAN"]\<close> and a tag named \<open>span\<close>: the name differs from
  the entry only in case, and the tag is not classified as inline.
\<close>

theorem uppercase_inline_entry_never_matches:
  "create_newline [options_inline_SPAN] = Inr rule_inline_SPAN
   \<and> isTag span_tag \<and> str ''SPAN'' \<in> set (inlineTags rule_inline_SPAN)
   \<and> name span_tag \<noteq> str ''SPAN''
   \<and> toLowerCase ascii_only (name span_tag) = toLowerCase ascii_only (str ''SPAN'')
   \<and> shouldBeNewline ascii_only rule_inline_SPAN span_tag"
  using create_inline_SPAN
  by (simp add: span_tag_def rule_inline_SPAN_def shouldBeNewline_def toLowerCase_def str_def)

end
